theory Spec2Isabelle
  imports Complex_Main "HOL-Library.Sublist" "HOL-Library.Log_Nat"
begin

section \<open>Python values, exceptions and effects\<close>

text \<open>
  The exceptions the modelled code can raise. \<open>PyException msg\<close> is the plain
  \<^verbatim>\<open>Exception(msg)\<close> of \<^verbatim>\<open>process_legal_document\<close>; \<open>ClientError\<close> stands for
  any exception raised inside a boto3 or model call.
\<close>

datatype py_error =
    KeyError
  | TypeError
  | AttributeError
  | IndexError
  | ValueError
  | ZeroDivisionError
  | JSONDecodeError
  | ClientError string
  | PyException string

text \<open>
  JSON values as \<^verbatim>\<open>json.loads\<close> produces them. A dict is an association list;
  lookup takes the first binding of a key.
\<close>

datatype json =
    JNull
  | JBool bool
  | JNum int
  | JStr string
  | JList "json list"
  | JDict "(string \<times> json) list"

fun truthy :: "json \<Rightarrow> bool" where
  "truthy JNull = False"
| "truthy (JBool b) = b"
| "truthy (JNum n) = (n \<noteq> 0)"
| "truthy (JStr s) = (s \<noteq> [])"
| "truthy (JList xs) = (xs \<noteq> [])"
| "truthy (JDict kvs) = (kvs \<noteq> [])"

text \<open>\<^verbatim>\<open>d.get(k, default)\<close>: only a dict has \<^verbatim>\<open>get\<close>.\<close>

fun dict_get :: "json \<Rightarrow> string \<Rightarrow> json \<Rightarrow> py_error + json" where
  "dict_get (JDict kvs) k d = Inr (case map_of kvs k of Some v \<Rightarrow> v | None \<Rightarrow> d)"
| "dict_get JNull k d = Inl AttributeError"
| "dict_get (JBool b) k d = Inl AttributeError"
| "dict_get (JNum n) k d = Inl AttributeError"
| "dict_get (JStr s) k d = Inl AttributeError"
| "dict_get (JList xs) k d = Inl AttributeError"

text \<open>\<^verbatim>\<open>d[k]\<close> with a string key.\<close>

fun subscript :: "json \<Rightarrow> string \<Rightarrow> py_error + json" where
  "subscript (JDict kvs) k = (case map_of kvs k of Some v \<Rightarrow> Inr v | None \<Rightarrow> Inl KeyError)"
| "subscript JNull k = Inl TypeError"
| "subscript (JBool b) k = Inl TypeError"
| "subscript (JNum n) k = Inl TypeError"
| "subscript (JStr s) k = Inl TypeError"
| "subscript (JList xs) k = Inl TypeError"

text \<open>\<^verbatim>\<open>k in v\<close> for a string \<open>k\<close>.\<close>

fun py_in :: "string \<Rightarrow> json \<Rightarrow> py_error + bool" where
  "py_in k (JDict kvs) = Inr (map_of kvs k \<noteq> None)"
| "py_in k (JList xs) = Inr (JStr k \<in> set xs)"
| "py_in k (JStr s) = Inr (sublist k s)"
| "py_in k JNull = Inl TypeError"
| "py_in k (JBool b) = Inl TypeError"
| "py_in k (JNum n) = Inl TypeError"

text \<open>The elements a \<^verbatim>\<open>for\<close> loop visits.\<close>

fun py_iter :: "json \<Rightarrow> py_error + json list" where
  "py_iter (JList xs) = Inr xs"
| "py_iter (JDict kvs) = Inr (map (\<lambda>kv. JStr (fst kv)) kvs)"
| "py_iter (JStr s) = Inr (map (\<lambda>c. JStr [c]) s)"
| "py_iter JNull = Inl TypeError"
| "py_iter (JBool b) = Inl TypeError"
| "py_iter (JNum n) = Inl TypeError"

text \<open>\<^verbatim>\<open>str.lower\<close> and \<^verbatim>\<open>str.replace('+', ' ')\<close> on ASCII text.\<close>

definition lower_char :: "char \<Rightarrow> char" where
  "lower_char c =
     (let n = (of_char c :: nat) in if 65 \<le> n \<and> n \<le> 90 then char_of (n + 32) else c)"

fun str_lower :: "json \<Rightarrow> py_error + string" where
  "str_lower (JStr s) = Inr (map lower_char s)"
| "str_lower JNull = Inl AttributeError"
| "str_lower (JBool b) = Inl AttributeError"
| "str_lower (JNum n) = Inl AttributeError"
| "str_lower (JList xs) = Inl AttributeError"
| "str_lower (JDict kvs) = Inl AttributeError"

fun str_replace_plus :: "json \<Rightarrow> py_error + string" where
  "str_replace_plus (JStr s) = Inr (map (\<lambda>c. if c = CHR ''+'' then CHR '' '' else c) s)"
| "str_replace_plus JNull = Inl AttributeError"
| "str_replace_plus (JBool b) = Inl AttributeError"
| "str_replace_plus (JNum n) = Inl AttributeError"
| "str_replace_plus (JList xs) = Inl AttributeError"
| "str_replace_plus (JDict kvs) = Inl AttributeError"

subsection \<open>Calls to the outside, recorded in order\<close>

datatype invocation_type = RequestResponse | Event

datatype call =
    HeadObject json string
  | Invoke string invocation_type json
  | ExistingBedrock json string

text \<open>
  The collaborators of the trigger-upload Lambda: \<open>head_object\<close> is
  \<^verbatim>\<open>s3.head_object\<close>, \<open>invoke\<close> is \<^verbatim>\<open>lambda_client.invoke\<close> and returns the
  text of the response payload, \<open>loads\<close> is \<^verbatim>\<open>json.loads\<close> on a string, \<open>env\<close>
  is \<^verbatim>\<open>os.environ\<close>, \<open>unquote\<close> is \<^verbatim>\<open>urllib.parse.unquote\<close>.
\<close>

record world =
  head_object :: "json \<Rightarrow> string \<Rightarrow> py_error + json"
  invoke :: "string \<Rightarrow> invocation_type \<Rightarrow> json \<Rightarrow> py_error + string"
  loads :: "string \<Rightarrow> py_error + json"
  env :: "string \<rightharpoonup> string"
  unquote :: "string \<Rightarrow> py_error + string"

text \<open>
  A computation yields the calls it made, in order, and either the exception that
  ended it or its value.
\<close>

type_synonym 'a act = "call list \<times> (py_error + 'a)"

definition ret :: "'a \<Rightarrow> 'a act" where
  "ret x = ([], Inr x)"

definition raise :: "py_error \<Rightarrow> 'a act" where
  "raise e = ([], Inl e)"

definition lift :: "py_error + 'a \<Rightarrow> 'a act" where
  "lift r = ([], r)"

definition emit :: "call \<Rightarrow> py_error + 'a \<Rightarrow> 'a act" where
  "emit c r = ([c], r)"

fun andthen :: "'a act \<Rightarrow> ('a \<Rightarrow> 'b act) \<Rightarrow> 'b act" where
  "andthen (t, Inl e) f = (t, Inl e)"
| "andthen (t, Inr x) f = (t @ fst (f x), snd (f x))"

section \<open>The document router (lambdas/trigger-upload/index.py)\<close>

text \<open>\<^verbatim>\<open>json.loads(v)\<close> of a value that need not be a string.\<close>

fun json_loads :: "world \<Rightarrow> json \<Rightarrow> py_error + json" where
  "json_loads w (JStr s) = loads w s"
| "json_loads w JNull = Inl TypeError"
| "json_loads w (JBool b) = Inl TypeError"
| "json_loads w (JNum n) = Inl TypeError"
| "json_loads w (JList xs) = Inl TypeError"
| "json_loads w (JDict kvs) = Inl TypeError"

fun is_str :: "json \<Rightarrow> bool" where
  "is_str (JStr s) = True"
| "is_str JNull = False"
| "is_str (JBool b) = False"
| "is_str (JNum n) = False"
| "is_str (JList xs) = False"
| "is_str (JDict kvs) = False"

text \<open>
  \<^verbatim>\<open>json.loads(p.get('body', '{}')) if isinstance(p.get('body'), str) else p\<close>,
  the expression that follows each synchronous invocation.
\<close>

definition unwrap_body :: "world \<Rightarrow> json \<Rightarrow> py_error + json" where
  "unwrap_body w p =
     (case dict_get p ''body'' JNull of
        Inl e \<Rightarrow> Inl e
      | Inr b \<Rightarrow>
          if is_str b then
            (case dict_get p ''body'' (JStr ''{}'') of
               Inl e \<Rightarrow> Inl e
             | Inr b' \<Rightarrow> json_loads w b')
          else Inr p)"

text \<open>
  \<^verbatim>\<open>lambda_client.invoke(FunctionName=os.environ[var], InvocationType=ty, Payload=json.dumps(req))\<close>:
  the environment lookup comes first and raises \<open>KeyError\<close> before anything is invoked.
\<close>

definition invoke_fn :: "world \<Rightarrow> string \<Rightarrow> invocation_type \<Rightarrow> json \<Rightarrow> string act" where
  "invoke_fn w var ty req =
     (case env w var of
        None \<Rightarrow> raise KeyError
      | Some arn \<Rightarrow> emit (Invoke arn ty req) (invoke w arn ty req))"

text \<open>
  A synchronous invocation with its payload read, parsed and unwrapped
  (lines 28-35, 40-47, 65-72 and 79-86 have this one shape).
\<close>

definition sync_call :: "world \<Rightarrow> string \<Rightarrow> json \<Rightarrow> json act" where
  "sync_call w var req =
     andthen (invoke_fn w var RequestResponse req) (\<lambda>txt.
     andthen (lift (loads w txt)) (\<lambda>payload.
     lift (unwrap_body w payload)))"

text \<open>The asynchronous save of lines 50-58 and 89-97; its response is not read.\<close>

definition save_result :: "world \<Rightarrow> json \<Rightarrow> string \<Rightarrow> json \<Rightarrow> unit act" where
  "save_result w bucket key result =
     andthen (invoke_fn w ''RESULT_SAVER_FN_ARN'' Event
                (JDict [(''bucket'', bucket), (''key'', JStr key), (''result'', result)]))
       (\<lambda>_. ret ())"

definition doc_request :: "json \<Rightarrow> string \<Rightarrow> json" where
  "doc_request bucket key = JDict [(''bucket'', bucket), (''key'', JStr key)]"

text \<open>Lines 19-20: the lower-cased \<^verbatim>\<open>document-type\<close> metadata tag.\<close>

definition document_type :: "world \<Rightarrow> json \<Rightarrow> string \<Rightarrow> string act" where
  "document_type w bucket key =
     andthen (emit (HeadObject bucket key) (head_object w bucket key)) (\<lambda>head.
     andthen (lift (dict_get head ''Metadata'' (JDict []))) (\<lambda>md.
     andthen (lift (dict_get md ''document-type'' (JStr ''''))) (\<lambda>dt.
     lift (str_lower dt))))"

text \<open>Line 37: \<^verbatim>\<open>qr_result.get('hasQR') and qr_result.get('decodedText')\<close>.\<close>

definition has_code :: "json \<Rightarrow> py_error + bool" where
  "has_code qr_result =
     (case dict_get qr_result ''hasQR'' JNull of
        Inl e \<Rightarrow> Inl e
      | Inr h \<Rightarrow>
          if truthy h then
            (case dict_get qr_result ''decodedText'' JNull of
               Inl e \<Rightarrow> Inl e
             | Inr d \<Rightarrow> Inr (truthy d))
          else Inr False)"

text \<open>
  \<^verbatim>\<open>process_legal_document\<close>. The \<^verbatim>\<open>except\<close> clause logs and re-raises, so an
  exception leaves the function as it was raised.
\<close>

definition process_legal_document :: "world \<Rightarrow> json \<Rightarrow> string \<Rightarrow> bool act" where
  "process_legal_document w bucket key =
     andthen (document_type w bucket key) (\<lambda>doc_type.
     if doc_type \<noteq> ''legal registration'' then ret False
     else
       andthen (sync_call w ''QR_DETECTOR_FN_ARN'' (doc_request bucket key)) (\<lambda>qr_result.
       andthen (lift (has_code qr_result)) (\<lambda>coded.
       if coded then
         andthen (lift (case env w ''QR_DECODER_FN_ARN'' of
                          None \<Rightarrow> Inl KeyError | Some a \<Rightarrow> Inr a)) (\<lambda>_.
         andthen (lift (subscript qr_result ''decodedText'')) (\<lambda>decoded_text.
         andthen (sync_call w ''QR_DECODER_FN_ARN'' (JDict [(''decodedText'', decoded_text)]))
           (\<lambda>decoded_result.
         andthen (save_result w bucket key decoded_result) (\<lambda>_.
         ret True))))
       else
         andthen (sync_call w ''VIETOCR_FN_ARN'' (doc_request bucket key)) (\<lambda>ocr_result.
         andthen (lift (dict_get ocr_result ''text'' JNull)) (\<lambda>text.
         if \<not> truthy text then raise (PyException ''VietOCR returned no text'')
         else
           andthen (lift (case env w ''BEDROCK_QA_FN_ARN'' of
                            None \<Rightarrow> Inl KeyError | Some a \<Rightarrow> Inr a)) (\<lambda>_.
           andthen (lift (subscript ocr_result ''text'')) (\<lambda>text'.
           andthen (sync_call w ''BEDROCK_QA_FN_ARN'' (JDict [(''text'', text')])) (\<lambda>qa_result.
           andthen (save_result w bucket key qa_result) (\<lambda>_.
           ret True)))))))))"

text \<open>\<^verbatim>\<open>process_with_existing_bedrock\<close> only logs and returns \<^verbatim>\<open>True\<close>.\<close>

definition process_with_existing_bedrock :: "json \<Rightarrow> string \<Rightarrow> bool act" where
  "process_with_existing_bedrock bucket key = emit (ExistingBedrock bucket key) (Inr True)"

text \<open>
  Lines 147-155: the bucket and the decoded key of an S3 record. A failure of
  \<^verbatim>\<open>unquote\<close> is swallowed and leaves the key as it was.
\<close>

definition record_target :: "world \<Rightarrow> json \<Rightarrow> py_error + json \<times> string" where
  "record_target w s3_record =
     (case subscript s3_record ''s3'' of Inl e \<Rightarrow> Inl e | Inr s \<Rightarrow>
     (case subscript s ''bucket'' of Inl e \<Rightarrow> Inl e | Inr bk \<Rightarrow>
     (case subscript bk ''name'' of Inl e \<Rightarrow> Inl e | Inr bucket \<Rightarrow>
     (case subscript s ''object'' of Inl e \<Rightarrow> Inl e | Inr ob \<Rightarrow>
     (case subscript ob ''key'' of Inl e \<Rightarrow> Inl e | Inr key0 \<Rightarrow>
     (case str_replace_plus key0 of Inl e \<Rightarrow> Inl e | Inr key1 \<Rightarrow>
        Inr (bucket, (case unquote w key1 of Inl e \<Rightarrow> key1 | Inr k \<Rightarrow> k))))))))"

text \<open>The body of the inner loop of \<^verbatim>\<open>lambda_handler\<close>, lines 147-168.\<close>

definition handle_s3_record :: "world \<Rightarrow> json \<Rightarrow> unit act" where
  "handle_s3_record w s3_record =
     andthen (lift (record_target w s3_record)) (\<lambda>target.
     andthen (process_legal_document w (fst target) (snd target)) (\<lambda>processed_as_legal.
     if processed_as_legal then ret ()
     else andthen (process_with_existing_bedrock (fst target) (snd target)) (\<lambda>_. ret ())))"

text \<open>A \<^verbatim>\<open>for\<close> loop whose body may raise: the first exception ends it.\<close>

fun for_each :: "('a \<Rightarrow> unit act) \<Rightarrow> 'a list \<Rightarrow> unit act" where
  "for_each step [] = ret ()"
| "for_each step (x # xs) = andthen (step x) (\<lambda>_. for_each step xs)"

text \<open>The body of the outer loop, lines 134-168.\<close>

definition handle_record :: "world \<Rightarrow> json \<Rightarrow> unit act" where
  "handle_record w record =
     andthen (lift (py_in ''body'' record)) (\<lambda>has_body.
     andthen (if has_body
              then andthen (lift (subscript record ''body'')) (\<lambda>b. lift (json_loads w b))
              else ret record) (\<lambda>s3_event.
     andthen (lift (dict_get s3_event ''Records'' (JList []))) (\<lambda>s3_records.
     if \<not> truthy s3_records then ret ()
     else
       andthen (lift (py_iter s3_records)) (\<lambda>rs.
       for_each (handle_s3_record w) rs))))"

datatype response_body = Completed | ErrorOf py_error

record response =
  statusCode :: int
  body :: response_body

text \<open>
  \<^verbatim>\<open>lambda_handler\<close>: one \<^verbatim>\<open>try\<close> around both loops. The handler itself never
  raises; it yields the calls made and the response.
\<close>

definition run_records :: "world \<Rightarrow> json \<Rightarrow> unit act" where
  "run_records w event =
     andthen (lift (dict_get event ''Records'' (JList []))) (\<lambda>records.
     andthen (lift (py_iter records)) (\<lambda>rs.
     for_each (handle_record w) rs))"

definition lambda_handler :: "world \<Rightarrow> json \<Rightarrow> call list \<times> response" where
  "lambda_handler w event =
     (case run_records w event of
        (t, Inr _) \<Rightarrow> (t, \<lparr>statusCode = 200, body = Completed\<rparr>)
      | (t, Inl e) \<Rightarrow> (t, \<lparr>statusCode = 500, body = ErrorOf e\<rparr>))"

section \<open>Python floats\<close>

text \<open>
  A Python \<^verbatim>\<open>float\<close> is an IEEE 754 binary64 number; it is modelled by the rational
  it denotes. \<open>fl x\<close> is the double nearest to \<open>x\<close> (53 significant bits, ties to
  even), so \<^verbatim>\<open>a / b\<close> is \<open>fl (a / b)\<close> and \<^verbatim>\<open>a * b\<close> is \<open>fl (a * b)\<close>. Overflow and
  subnormal numbers are left out: every quantity below is a pixel count or a ratio of
  pixel counts.
\<close>

definition round_half_even :: "rat \<Rightarrow> int" where
  "round_half_even r =
     (let f = \<lfloor>r\<rfloor>; d = r - of_int f
      in if d < 1 / 2 then f else if 1 / 2 < d then f + 1 else if even f then f else f + 1)"

text \<open>The binary exponent \<open>\<lfloor>log\<^sub>2 \<bar>x\<bar>\<rfloor>\<close> of a non-zero rational.\<close>

definition float_exponent :: "rat \<Rightarrow> int" where
  "float_exponent x =
     (let pq = quotient_of \<bar>x\<bar>; e = bitlen (fst pq) - bitlen (snd pq)
      in if 2 powi e \<le> \<bar>x\<bar> then e else e - 1)"

definition fl :: "rat \<Rightarrow> rat" where
  "fl x = (if x = 0 then 0
           else let u = 2 powi (float_exponent x - 52)
                in of_int (round_half_even (x / u)) * u)"

text \<open>\<^verbatim>\<open>int(x)\<close> of a float truncates towards zero.\<close>

definition py_int :: "rat \<Rightarrow> int" where
  "py_int x = (if 0 \<le> x then \<lfloor>x\<rfloor> else \<lceil>x\<rceil>)"

section \<open>The OCR server (backend/vietocr-server.py)\<close>

subsection \<open>Images and the Image Normalizer\<close>

text \<open>
  A PIL image is an object with a size; its pixels are not modelled. \<open>img_ref\<close> says
  which object a variable holds: the image that was passed in, or a new one.
\<close>

record image =
  width :: int
  height :: int

datatype img_ref = Input | Fresh image

text \<open>
  \<^verbatim>\<open>new_size = (int(img.width * scale), int(img.height * scale))\<close>, the size that
  \<^verbatim>\<open>img.resize\<close> gives to the new image it returns.
\<close>

definition resized :: "rat \<Rightarrow> image \<Rightarrow> image" where
  "resized scale img =
     \<lparr>width = py_int (fl (of_int (width img) * scale)),
      height = py_int (fl (of_int (height img) * scale))\<rparr>"

text \<open>
  Step 2 of \<^verbatim>\<open>preprocess_image\<close>, lines 98-126. \<open>inp\<close> is the object that was passed
  in, as it is now, and \<open>b\<close> what the local variable \<^verbatim>\<open>img\<close> holds. When the OpenCV
  calls succeed the result is a new image of the size of \<^verbatim>\<open>img\<close>; when one of them
  raises, the \<^verbatim>\<open>except\<close> clause returns \<^verbatim>\<open>img\<close> itself.
\<close>

definition contrast_step :: "(image \<Rightarrow> bool) \<Rightarrow> image \<Rightarrow> img_ref \<Rightarrow> image \<times> img_ref" where
  "contrast_step enhances inp b =
     (let cur = (case b of Input \<Rightarrow> inp | Fresh i \<Rightarrow> i)
      in if enhances cur then (inp, Fresh cur) else (inp, b))"

text \<open>
  \<^verbatim>\<open>preprocess_image(img, for_detection)\<close>. The result is the passed-in object as the
  call leaves it, and the image returned. \<open>thumb\<close> is the size computation of PIL's
  \<^verbatim>\<open>Image.thumbnail\<close>, which resizes the object it is called on; \<^verbatim>\<open>img.resize\<close> returns a
  new image. A zero \<^verbatim>\<open>max_side\<close> makes the division raise, and the \<^verbatim>\<open>except\<close> clause
  returns \<^verbatim>\<open>img\<close>.
\<close>

definition preprocess_image ::
  "(int \<times> int \<Rightarrow> image \<Rightarrow> image) \<Rightarrow> (image \<Rightarrow> bool) \<Rightarrow> image \<Rightarrow> bool \<Rightarrow> image \<times> img_ref" where
  "preprocess_image thumb enhances img for_detection =
     (let max_side = max (width img) (height img)
      in if for_detection then
           (if max_side > 5000 then contrast_step enhances (thumb (3200, 3200) img) Input
            else if max_side < 2000 then
              (if max_side = 0 then (img, Input)
               else contrast_step enhances img
                      (Fresh (resized (fl (2400 / of_int max_side)) img)))
            else contrast_step enhances img Input)
         else
           (if max_side > 4000 then contrast_step enhances (thumb (2400, 2400) img) Input
            else if max_side < 1200 then
              (if max_side = 0 then (img, Input)
               else contrast_step enhances img
                      (Fresh (resized (fl (1600 / of_int max_side)) img)))
            else contrast_step enhances img Input))"

text \<open>The image a reference denotes, given the passed-in object.\<close>

definition deref :: "image \<Rightarrow> img_ref \<Rightarrow> image" where
  "deref inp r = (case r of Input \<Rightarrow> inp | Fresh i \<Rightarrow> i)"


text \<open>
  The size computation of \<^verbatim>\<open>Image.thumbnail\<close> as Pillow 7 and later define it
  (\<^verbatim>\<open>preserve_aspect_ratio\<close> with \<^verbatim>\<open>round_aspect\<close>), in exact arithmetic, for images with
  positive sides.
\<close>

definition round_aspect :: "rat \<Rightarrow> (int \<Rightarrow> rat) \<Rightarrow> int" where
  "round_aspect number key =
     max (if key \<lfloor>number\<rfloor> \<le> key \<lceil>number\<rceil> then \<lfloor>number\<rfloor> else \<lceil>number\<rceil>) 1"

definition pil_thumbnail :: "int \<times> int \<Rightarrow> image \<Rightarrow> image" where
  "pil_thumbnail bound img =
     (let x = fst bound; y = snd bound
      in if x \<ge> width img \<and> y \<ge> height img then img
         else
           let aspect = of_int (width img) / of_int (height img)
           in if of_int x / of_int y \<ge> aspect
              then \<lparr>width = round_aspect (of_int y * aspect)
                               (\<lambda>n. \<bar>aspect - of_int n / of_int y\<bar>),
                    height = y\<rparr>
              else \<lparr>width = x,
                    height = round_aspect (of_int x / aspect)
                               (\<lambda>n. if n = 0 then 0 else \<bar>aspect - of_int x / of_int n\<bar>)\<rparr>)"

subsection \<open>Coordinate Mapper and Region Extractor\<close>

text \<open>
  A detected polygon is a list of points, a point the list of its coordinates as the
  detector gives them.
\<close>

type_synonym point = "rat list"
type_synonym polygon = "point list"
type_synonym box = "int \<times> int \<times> int \<times> int"

text \<open>\<^verbatim>\<open>p[i]\<close> on a point.\<close>

definition coord :: "point \<Rightarrow> nat \<Rightarrow> py_error + rat" where
  "coord p i = (if i < length p then Inr (p ! i) else Inl IndexError)"

text \<open>\<^verbatim>\<open>[int(float(p[i]) * scale) for p in poly]\<close>, lines 331-332.\<close>

fun scaled_coords :: "rat \<Rightarrow> nat \<Rightarrow> polygon \<Rightarrow> py_error + int list" where
  "scaled_coords scale i [] = Inr []"
| "scaled_coords scale i (p # ps) =
     (case coord p i of
        Inl e \<Rightarrow> Inl e
      | Inr c \<Rightarrow>
          (case scaled_coords scale i ps of
             Inl e \<Rightarrow> Inl e
           | Inr cs \<Rightarrow> Inr (py_int (fl (fl c * scale)) # cs)))"

text \<open>\<^verbatim>\<open>min(xs)\<close> and \<^verbatim>\<open>max(xs)\<close>; both raise on an empty list.\<close>

fun py_min :: "int list \<Rightarrow> py_error + int" where
  "py_min [] = Inl ValueError"
| "py_min (x # xs) = Inr (fold min xs x)"

fun py_max :: "int list \<Rightarrow> py_error + int" where
  "py_max [] = Inl ValueError"
| "py_max (x # xs) = Inr (fold max xs x)"

text \<open>
  Lines 331-346: the padded, clamped bounding box of a polygon in the recognition
  image of width \<open>W\<close> and height \<open>H\<close>.
\<close>

definition scaled_region :: "rat \<Rightarrow> rat \<Rightarrow> int \<Rightarrow> int \<Rightarrow> polygon \<Rightarrow> py_error + box" where
  "scaled_region scale_x scale_y W H poly =
     (case scaled_coords scale_x 0 poly of Inl e \<Rightarrow> Inl e | Inr xs \<Rightarrow>
     (case scaled_coords scale_y 1 poly of Inl e \<Rightarrow> Inl e | Inr ys \<Rightarrow>
     (case py_min xs of Inl e \<Rightarrow> Inl e | Inr min_x \<Rightarrow>
     (case py_min ys of Inl e \<Rightarrow> Inl e | Inr min_y \<Rightarrow>
     (case py_max xs of Inl e \<Rightarrow> Inl e | Inr max_x \<Rightarrow>
     (case py_max ys of Inl e \<Rightarrow> Inl e | Inr max_y \<Rightarrow>
        (let pad = 5
         in Inr (max 0 (min_x - pad), max 0 (min_y - pad),
                 min W (max_x + pad), min H (max_y + pad)))))))))"

text \<open>
  What the recogniser is given: a crop of the recognition image (the box cut out and
  the size of the patch after any upscaling), or the whole recognition image.
\<close>

datatype patch = Crop box "int \<times> int" | Whole image

text \<open>
  Lines 354-366: crop the box and upscale a crop lower than 48 pixels. The caller has
  checked \<open>x2 > x1\<close> and \<open>y2 > y1\<close>.
\<close>

definition extract_patch :: "box \<Rightarrow> py_error + patch" where
  "extract_patch b =
     (case b of (x1, y1, x2, y2) \<Rightarrow>
        let crop_width = x2 - x1; crop_height = y2 - y1
        in if crop_width < 0 \<or> crop_height < 0 then Inl ValueError
           else if crop_height < 48 then
             (if crop_height = 0 then Inl ZeroDivisionError
              else
                let scale = fl (48 / of_int crop_height);
                    new_width = py_int (fl (of_int crop_width * scale));
                    new_height = 48
                in Inr (Crop b (new_width, new_height)))
           else Inr (Crop b (crop_width, crop_height)))"

subsection \<open>Recognised text\<close>

text \<open>
  A Python \<^verbatim>\<open>str\<close> of recognised text is a list of code points; \<^verbatim>\<open>str.strip()\<close>
  removes the code points for which \<^verbatim>\<open>str.isspace\<close> holds from both ends.
\<close>

type_synonym ustr = "nat list"

definition is_space :: "nat \<Rightarrow> bool" where
  "is_space c =
     ((9 \<le> c \<and> c \<le> 13) \<or> (28 \<le> c \<and> c \<le> 32) \<or> c = 133 \<or> c = 160 \<or> c = 5760
      \<or> (8192 \<le> c \<and> c \<le> 8202) \<or> c = 8232 \<or> c = 8233 \<or> c = 8239 \<or> c = 8287
      \<or> c = 12288)"

definition py_strip :: "ustr \<Rightarrow> ustr" where
  "py_strip s = rev (dropWhile is_space (rev (dropWhile is_space s)))"

text \<open>\<^verbatim>\<open>if text and text.strip(): lines.append(text.strip())\<close>.\<close>

definition keep_line :: "ustr \<Rightarrow> ustr list" where
  "keep_line t = (if t \<noteq> [] \<and> py_strip t \<noteq> [] then [py_strip t] else [])"

text \<open>\<^verbatim>\<open>"\n".join(lines)\<close>.\<close>

fun join_lines :: "ustr list \<Rightarrow> ustr" where
  "join_lines [] = []"
| "join_lines [l] = l"
| "join_lines (l # m # ls) = l @ [10] @ join_lines (m # ls)"

subsection \<open>The /ocr entry point\<close>

text \<open>
  The loop of lines 319-391 over the detected polygons. It yields the patches given
  to the recogniser, in order, and either the exception that ended the loop or the
  lines collected. A polygon that is empty, has fewer than four points, has a point
  without two coordinates (the \<open>IndexError\<close> is caught) or has an empty box is
  skipped; an exception of \<^verbatim>\<open>rec.predict\<close> is not caught here.
\<close>

fun recognize_regions ::
  "(patch \<Rightarrow> py_error + ustr) \<Rightarrow> rat \<Rightarrow> rat \<Rightarrow> int \<Rightarrow> int \<Rightarrow> polygon list
     \<Rightarrow> patch list \<times> (py_error + ustr list)" where
  "recognize_regions predict scale_x scale_y W H [] = ([], Inr [])"
| "recognize_regions predict scale_x scale_y W H (poly # rest) =
     (if poly = [] then recognize_regions predict scale_x scale_y W H rest
      else if length poly \<ge> 4 then
        (case scaled_region scale_x scale_y W H poly of
           Inl e \<Rightarrow>
             if e = IndexError \<or> e = TypeError \<or> e = ValueError
             then recognize_regions predict scale_x scale_y W H rest
             else ([], Inl e)
         | Inr (x1, y1, x2, y2) \<Rightarrow>
             if x2 > x1 \<and> y2 > y1 then
               (case extract_patch (x1, y1, x2, y2) of
                  Inl e \<Rightarrow> ([], Inl e)
                | Inr crop \<Rightarrow>
                    (case predict crop of
                       Inl e \<Rightarrow> ([crop], Inl e)
                     | Inr t \<Rightarrow>
                         (case recognize_regions predict scale_x scale_y W H rest of
                            (calls, Inl e) \<Rightarrow> (crop # calls, Inl e)
                          | (calls, Inr ls) \<Rightarrow> (crop # calls, Inr (keep_line t @ ls)))))
             else recognize_regions predict scale_x scale_y W H rest)
      else recognize_regions predict scale_x scale_y W H rest)"

text \<open>
  The collaborators of the server: \<open>decode_image\<close> is base64 decoding,
  \<^verbatim>\<open>Image.open\<close> and the conversion to RGB, \<open>thumbnail\<close> the size computation of
  \<^verbatim>\<open>Image.thumbnail\<close>, \<open>enhances\<close> tells whether the OpenCV calls of the contrast step
  succeed on an image, \<open>init_models\<close> is the exception of \<^verbatim>\<open>init_detector\<close> or
  \<^verbatim>\<open>init_predictor\<close> if there is one, \<open>detect\<close> is \<^verbatim>\<open>det.ocr\<close> on the thresholded
  detection image (a list of pages, a page being \<^verbatim>\<open>None\<close> or a list of polygons),
  \<open>predict\<close> is \<^verbatim>\<open>rec.predict\<close>.
\<close>

record server =
  decode_image :: "json \<Rightarrow> py_error + image"
  thumbnail :: "int \<times> int \<Rightarrow> image \<Rightarrow> image"
  enhances :: "image \<Rightarrow> bool"
  init_models :: "py_error option"
  detect :: "image \<Rightarrow> py_error + polygon list option list"
  predict :: "patch \<Rightarrow> py_error + ustr"

text \<open>
  Lines 254-270: the polygons kept from the first page of the detector's result,
  those that are non-empty and whose first point has two coordinates.
\<close>

definition valid_item :: "polygon \<Rightarrow> bool" where
  "valid_item item = (case item of [] \<Rightarrow> False | p # _ \<Rightarrow> length p = 2)"

definition detected_boxes :: "polygon list option list \<Rightarrow> polygon list" where
  "detected_boxes result =
     (case result of
        [] \<Rightarrow> []
      | page # _ \<Rightarrow> (case page of None \<Rightarrow> [] | Some items \<Rightarrow> filter valid_item items))"

record ocr_result =
  final_text :: ustr
  success :: bool
  regions_detected :: nat
  boxes_detected :: nat
  lines :: "ustr list"

datatype http_response =
    Ok ocr_result
  | BadRequest string
  | ServerError py_error

text \<open>Lines 422-446: the successful response.\<close>

definition respond :: "polygon list \<Rightarrow> ustr list \<Rightarrow> http_response" where
  "respond boxes ls =
     Ok \<lparr>final_text = (if ls \<noteq> [] then join_lines ls else []),
         success = True,
         regions_detected = length ls,
         boxes_detected = length boxes,
         lines = ls\<rparr>"

text \<open>
  Lines 199-212: the detection view and the recognition view. Both calls of
  \<^verbatim>\<open>preprocess_image\<close> get the same object \<^verbatim>\<open>image\<close>, and the sizes of
  \<^verbatim>\<open>detection_img\<close> and \<^verbatim>\<open>processed_img\<close> are read after both calls.
\<close>

definition views :: "server \<Rightarrow> image \<Rightarrow> image \<times> image" where
  "views s image0 =
     (let first = preprocess_image (thumbnail s) (enhances s) image0 True;
          second = preprocess_image (thumbnail s) (enhances s) (fst first) False
      in (deref (fst second) (snd first), deref (fst second) (snd second)))"

text \<open>
  Lines 239-285: the boxes found in the detection view. An exception of the detector
  is caught and leaves no boxes.
\<close>

definition find_boxes :: "server \<Rightarrow> image \<Rightarrow> polygon list" where
  "find_boxes s detection_img =
     (case detect s detection_img of
        Inl e \<Rightarrow> []
      | Inr result \<Rightarrow> detected_boxes result)"

text \<open>
  Lines 199-446, from the decoded image on. With no boxes the whole recognition image
  is recognised once. The result is the patches given to the recogniser, in order, and
  the response.
\<close>

definition run_pipeline :: "server \<Rightarrow> image \<Rightarrow> patch list \<times> http_response" where
  "run_pipeline s image0 =
     (let detection_img = fst (views s image0);
          processed_img = snd (views s image0)
      in case init_models s of
           Some e \<Rightarrow> ([], ServerError e)
         | None \<Rightarrow>
             let boxes = find_boxes s detection_img
             in if boxes \<noteq> [] then
                  (if width detection_img = 0 \<or> height detection_img = 0
                   then ([], ServerError ZeroDivisionError)
                   else
                     let scale_x = fl (of_int (width processed_img) / of_int (width detection_img));
                         scale_y = fl (of_int (height processed_img) / of_int (height detection_img))
                     in case recognize_regions (predict s) scale_x scale_y
                               (width processed_img) (height processed_img) boxes of
                          (calls, Inl e) \<Rightarrow> (calls, ServerError e)
                        | (calls, Inr ls) \<Rightarrow> (calls, respond boxes ls))
                else
                  (case predict s (Whole processed_img) of
                     Inl e \<Rightarrow> ([Whole processed_img], ServerError e)
                   | Inr t \<Rightarrow> ([Whole processed_img], respond boxes (keep_line t))))"

text \<open>
  \<^verbatim>\<open>ocr()\<close>: \<open>data\<close> is the parsed request body, \<^verbatim>\<open>None\<close> when there is none. An
  exception outside the decoding \<^verbatim>\<open>try\<close> gives a 500.
\<close>

definition ocr :: "server \<Rightarrow> json \<Rightarrow> patch list \<times> http_response" where
  "ocr s data =
     (if \<not> truthy data then ([], BadRequest ''No JSON data provided'')
      else
        (case dict_get data ''dataBase64'' JNull of
           Inl e \<Rightarrow> ([], ServerError e)
         | Inr data_base64 \<Rightarrow>
             (if \<not> truthy data_base64 then ([], BadRequest ''dataBase64 field is required'')
              else
                (case decode_image s data_base64 of
                   Inl e \<Rightarrow> ([], BadRequest ''Invalid image data'')
                 | Inr image0 \<Rightarrow> run_pipeline s image0))))"

section \<open>Concrete inputs\<close>

text \<open>
  A small deployment used to run the router on concrete documents: \<^verbatim>\<open>deed.pdf\<close> and
  \<^verbatim>\<open>blank.pdf\<close> are tagged as legal registrations and carry no QR code,
  \<^verbatim>\<open>blank.pdf\<close> yields no text, \<^verbatim>\<open>missing.pdf\<close> does not exist in the
  bucket, every other key is an invoice.
\<close>

definition demo_world :: world where
  "demo_world =
     \<lparr>head_object = (\<lambda>bucket key.
        if key = ''missing.pdf'' then Inl (ClientError ''NoSuchKey'')
        else if key = ''deed.pdf'' \<or> key = ''blank.pdf''
        then Inr (JDict [(''Metadata'', JDict [(''document-type'', JStr ''Legal Registration'')])])
        else Inr (JDict [(''Metadata'', JDict [(''document-type'', JStr ''Invoice'')])])),
      invoke = (\<lambda>arn ty req.
        if arn = ''arn:qr'' then Inr ''qr-miss''
        else if arn = ''arn:ocr''
        then Inr (if req = doc_request (JStr ''docs'') ''deed.pdf'' then ''ocr-deed'' else ''ocr-blank'')
        else if arn = ''arn:qa'' then Inr ''qa-answers''
        else Inr ''ok''),
      loads = (\<lambda>s.
        if s = ''qr-miss'' then Inr (JDict [(''statusCode'', JNum 200), (''body'', JStr ''qr-miss-body'')])
        else if s = ''qr-miss-body'' then Inr (JDict [(''hasQR'', JBool False)])
        else if s = ''ocr-deed'' then Inr (JDict [(''statusCode'', JNum 200), (''body'', JStr ''ocr-deed-body'')])
        else if s = ''ocr-deed-body'' then Inr (JDict [(''text'', JStr ''GIAY CHUNG NHAN'')])
        else if s = ''ocr-blank'' then Inr (JDict [(''statusCode'', JNum 200), (''body'', JStr ''ocr-blank-body'')])
        else if s = ''ocr-blank-body'' then Inr (JDict [(''text'', JStr [])])
        else if s = ''qa-answers'' then Inr (JDict [(''owner'', JStr ''Nguyen Van A'')])
        else Inl JSONDecodeError),
      env = map_of
        [(''QR_DETECTOR_FN_ARN'', ''arn:qr''), (''QR_DECODER_FN_ARN'', ''arn:decode''),
         (''VIETOCR_FN_ARN'', ''arn:ocr''), (''BEDROCK_QA_FN_ARN'', ''arn:qa''),
         (''RESULT_SAVER_FN_ARN'', ''arn:save'')],
      unquote = Inr\<rparr>"

definition s3_record_for :: "string \<Rightarrow> string \<Rightarrow> json" where
  "s3_record_for bucket key =
     JDict [(''s3'', JDict [(''bucket'', JDict [(''name'', JStr bucket)]),
                            (''object'', JDict [(''key'', JStr key)])])]"

definition demo_batch :: json where
  "demo_batch =
     JDict [(''Records'',
       JList [JDict [(''Records'', JList [s3_record_for ''docs'' ''missing.pdf''])],
              JDict [(''Records'', JList [s3_record_for ''docs'' ''invoice.pdf''])]])]"

definition demo_batch_ok :: json where
  "demo_batch_ok =
     JDict [(''Records'',
       JList [JDict [(''Records'', JList [s3_record_for ''docs'' ''invoice.pdf''])],
              JDict [(''Records'', JList [s3_record_for ''docs'' ''receipt.pdf''])]])]"

text \<open>
  A server with fixed models. The detector finds two text boxes on an image 3000 pixels
  wide, one box on an image 2500 pixels wide and nothing otherwise; the recogniser
  reads two blanks in the first box, \<^verbatim>\<open>AB\<close> in any other crop and \<^verbatim>\<open>X\<close> on a whole
  image.
\<close>

definition first_box :: polygon where
  "first_box = [[10, 10], [50, 10], [50, 50], [10, 50]]"

definition second_box :: polygon where
  "second_box = [[100, 100], [300, 100], [300, 130], [100, 130]]"

definition demo_server :: server where
  "demo_server =
     \<lparr>decode_image = (\<lambda>d.
        if d = JStr ''two'' then Inr \<lparr>width = 3000, height = 2000\<rparr>
        else if d = JStr ''one'' then Inr \<lparr>width = 2500, height = 2000\<rparr>
        else if d = JStr ''none'' then Inr \<lparr>width = 2200, height = 2000\<rparr>
        else if d = JStr ''huge'' then Inr \<lparr>width = 6000, height = 3000\<rparr>
        else Inl ValueError),
      thumbnail = pil_thumbnail,
      enhances = (\<lambda>i. True),
      init_models = None,
      detect = (\<lambda>i.
        if width i = 3000 then Inr [Some [first_box, second_box]]
        else if width i = 2500 then Inr [Some [first_box]]
        else Inr [None]),
      predict = (\<lambda>p.
        case p of
          Crop b sz \<Rightarrow> if b = (5, 5, 55, 55) then Inr [32, 32] else Inr [65, 66]
        | Whole i \<Rightarrow> Inr [88])\<rparr>"

definition request :: "string \<Rightarrow> json" where
  "request name = JDict [(''dataBase64'', JStr name)]"

text \<open>Whether a patch is the whole recognition image.\<close>

fun is_whole :: "patch \<Rightarrow> bool" where
  "is_whole (Whole i) = True"
| "is_whole (Crop b sz) = False"

text \<open>A polygon beyond the right edge of an image 3000 pixels wide.\<close>

definition outside_box :: polygon where
  "outside_box = [[3010, 10], [3050, 10], [3050, 50], [3010, 50]]"

text \<open>The lines kept from one recognised patch.\<close>

definition kept_of :: "(patch \<Rightarrow> py_error + ustr) \<Rightarrow> patch \<Rightarrow> ustr list" where
  "kept_of rcg c = (case rcg c of Inl e \<Rightarrow> [] | Inr t \<Rightarrow> keep_line t)"

text \<open>
  A server for a portrait page of 1000 by 1800 pixels: the detection view is the page
  enlarged to 1333 by 2400, the recognition view the page itself, so that the two scale
  factors differ. The detector finds one box near the bottom of the detection view; the
  recogniser reads \<^verbatim>\<open>AB\<close> everywhere.
\<close>

definition tall_box :: polygon where
  "tall_box = [[100, 2001], [300, 2001], [300, 2101], [100, 2101]]"

definition portrait_server :: server where
  "portrait_server =
     \<lparr>decode_image = (\<lambda>d. Inr \<lparr>width = 1000, height = 1800\<rparr>),
      thumbnail = pil_thumbnail,
      enhances = (\<lambda>i. True),
      init_models = None,
      detect = (\<lambda>i. Inr [Some [tall_box]]),
      predict = (\<lambda>p. Inr [65, 66])\<rparr>"

section \<open>Properties of the document router\<close>

subsection \<open>Sequencing\<close>

lemma andthen_lift_Inr: "andthen (lift (Inr x)) f = f x"
  by (simp add: lift_def)

lemma andthen_lift_Inl: "andthen (lift (Inl e)) f = ([], Inl e)"
  by (simp add: lift_def)

lemma andthen_ret: "andthen (ret x) f = f x"
  by (simp add: ret_def)

lemma andthen_raise: "andthen (raise e) f = ([], Inl e)"
  by (simp add: raise_def)

lemma andthen_emit_Inr: "andthen (emit c (Inr x)) f = (c # fst (f x), snd (f x))"
  by (simp add: emit_def)

lemma andthen_emit_Inl: "andthen (emit c (Inl e)) f = ([c], Inl e)"
  by (simp add: emit_def)

lemma fst_andthen_lift: "fst (andthen (lift r) f) = (case r of Inl e \<Rightarrow> [] | Inr x \<Rightarrow> fst (f x))"
  by (cases r) (simp_all add: lift_def)

lemma document_type_eval:
  assumes "head_object w bucket key = Inr head"
      and "dict_get head ''Metadata'' (JDict []) = Inr md"
      and "dict_get md ''document-type'' (JStr '''') = Inr (JStr tag)"
  shows "document_type w bucket key = ([HeadObject bucket key], Inr (map lower_char tag))"
  using assms by (simp add: document_type_def andthen_emit_Inr andthen_lift_Inr lift_def)

lemma sync_call_trace:
  assumes "env w var = Some arn"
  shows "fst (sync_call w var req) = [Invoke arn RequestResponse req]"
proof (cases "invoke w arn RequestResponse req")
  case (Inl e)
  with assms show ?thesis by (simp add: sync_call_def invoke_fn_def emit_def)
next
  case (Inr payload_text)
  with assms show ?thesis
    by (cases "loads w payload_text")
       (simp_all add: sync_call_def invoke_fn_def andthen_emit_Inr lift_def)
qed

lemma save_result_eval:
  assumes "env w ''RESULT_SAVER_FN_ARN'' = Some arn"
  shows "save_result w bucket key result =
           ([Invoke arn Event (JDict [(''bucket'', bucket), (''key'', JStr key), (''result'', result)])],
            case invoke w arn Event
                   (JDict [(''bucket'', bucket), (''key'', JStr key), (''result'', result)]) of
              Inl e \<Rightarrow> Inl e | Inr _ \<Rightarrow> Inr ())"
  using assms
  by (simp add: save_result_def invoke_fn_def emit_def ret_def split: sum.splits)

lemma truthy_subscript:
  assumes "dict_get d k JNull = Inr v" and "truthy v"
  shows "subscript d k = Inr v"
  using assms by (cases d) (auto split: option.splits)

lemma for_each_stops:
  assumes "for_each step pre = (tp, Inr ())" and "step r = (tr, Inl e)"
  shows "for_each step (pre @ r # post) = (tp @ tr, Inl e)"
  using assms(1)
proof (induction pre arbitrary: tp)
  case Nil
  then show ?case using assms(2) by (simp add: ret_def)
next
  case (Cons x xs)
  obtain t rx where bx: "step x = (t, rx)" by (cases "step x")
  show ?case
  proof (cases rx)
    case (Inl e')
    with Cons.prems bx show ?thesis by simp
  next
    case (Inr u)
    obtain t' r' where fx: "for_each step xs = (t', r')" by (cases "for_each step xs")
    from Cons.prems bx Inr fx have "tp = t @ t'" and "r' = Inr ()" by simp_all
    with fx have "for_each step xs = (t', Inr ())" by simp
    from Cons.IH[OF this] have "for_each step (xs @ r # post) = (t' @ tr, Inl e)" .
    with bx Inr \<open>tp = t @ t'\<close> show ?thesis by simp
  qed
qed

subsection \<open>Documents that are not legal registrations\<close>

text \<open>
  Claim C5. A document whose \<^verbatim>\<open>document-type\<close> metadata tag, lower-cased, differs from
  \<^verbatim>\<open>legal registration\<close> (a missing tag reads as the empty string) makes
  \<^verbatim>\<open>process_legal_document\<close> return \<^verbatim>\<open>False\<close> after the metadata lookup alone: no
  function is invoked, in particular not the code-decode collaborator. The handler then
  hands the document to the generic flow, \<^verbatim>\<open>process_with_existing_bedrock\<close>.
\<close>

theorem other_document_type_not_applicable:
  assumes target: "record_target w s3_record = Inr (bucket, key)"
      and head: "head_object w bucket key = Inr head"
      and md: "dict_get head ''Metadata'' (JDict []) = Inr md"
      and tag: "dict_get md ''document-type'' (JStr '''') = Inr (JStr tag)"
      and other: "map lower_char tag \<noteq> ''legal registration''"
  shows "process_legal_document w bucket key = ([HeadObject bucket key], Inr False)
       \<and> handle_s3_record w s3_record
           = ([HeadObject bucket key, ExistingBedrock bucket key], Inr ())"
proof -
  have p: "process_legal_document w bucket key = ([HeadObject bucket key], Inr False)"
    using other by (simp add: process_legal_document_def document_type_eval[OF head md tag] ret_def)
  have "handle_s3_record w s3_record = ([HeadObject bucket key, ExistingBedrock bucket key], Inr ())"
    by (simp add: handle_s3_record_def target andthen_lift_Inr p process_with_existing_bedrock_def
        emit_def ret_def)
  with p show ?thesis by simp
qed


theorem other_document_type_not_applicable_witness:
  "process_legal_document demo_world (JStr ''docs'') ''invoice.pdf''
     = ([HeadObject (JStr ''docs'') ''invoice.pdf''], Inr False)
   \<and> handle_s3_record demo_world (s3_record_for ''docs'' ''invoice.pdf'')
     = ([HeadObject (JStr ''docs'') ''invoice.pdf'',
         ExistingBedrock (JStr ''docs'') ''invoice.pdf''], Inr ())"
proof -
  let ?head = "JDict [(''Metadata'', JDict [(''document-type'', JStr ''Invoice'')])]"
  let ?md = "JDict [(''document-type'', JStr ''Invoice'')]"
  have tg: "record_target demo_world (s3_record_for ''docs'' ''invoice.pdf'')
              = Inr (JStr ''docs'', ''invoice.pdf'')"
    by (simp add: record_target_def s3_record_for_def demo_world_def)
  have h: "head_object demo_world (JStr ''docs'') ''invoice.pdf'' = Inr ?head"
    by (simp add: demo_world_def)
  have md: "dict_get ?head ''Metadata'' (JDict []) = Inr ?md" by simp
  have tag: "dict_get ?md ''document-type'' (JStr []) = Inr (JStr ''Invoice'')" by simp
  have other: "map lower_char ''Invoice'' \<noteq> ''legal registration''"
    by (simp add: lower_char_def)
  from other_document_type_not_applicable[OF tg h md tag other] show ?thesis .
qed

subsection \<open>The slow path\<close>

text \<open>
  Claim C4. On the slow path (a legal registration whose code-decode result carries no
  code): if the text-extraction result has no text, the router raises
  \<^verbatim>\<open>Exception('VietOCR returned no text')\<close> and the calls made are exactly the metadata
  lookup, the code-decode invocation and the text-extraction invocation, so neither
  question answering nor persistence is invoked. If the text is non-empty, the next call
  is the synchronous (\<open>RequestResponse\<close>) question-answering invocation on that text,
  and once it has returned its result the asynchronous (\<open>Event\<close>) persistence
  invocation follows with that result, and the router returns \<^verbatim>\<open>True\<close>.
\<close>

theorem slow_path_extraction:
  assumes head: "head_object w bucket key = Inr head"
      and md: "dict_get head ''Metadata'' (JDict []) = Inr md"
      and tag: "dict_get md ''document-type'' (JStr '''') = Inr (JStr tag)"
      and legal: "map lower_char tag = ''legal registration''"
      and qr_arn: "env w ''QR_DETECTOR_FN_ARN'' = Some qr_arn"
      and qr: "snd (sync_call w ''QR_DETECTOR_FN_ARN'' (doc_request bucket key)) = Inr qr_result"
      and nocode: "has_code qr_result = Inr False"
      and ocr_arn: "env w ''VIETOCR_FN_ARN'' = Some ocr_arn"
      and ocr: "snd (sync_call w ''VIETOCR_FN_ARN'' (doc_request bucket key)) = Inr ocr_result"
      and extracted: "dict_get ocr_result ''text'' JNull = Inr text"
  shows "(\<not> truthy text \<longrightarrow>
            process_legal_document w bucket key =
              ([HeadObject bucket key,
                Invoke qr_arn RequestResponse (doc_request bucket key),
                Invoke ocr_arn RequestResponse (doc_request bucket key)],
               Inl (PyException ''VietOCR returned no text'')))
       \<and> (truthy text \<longrightarrow> env w ''BEDROCK_QA_FN_ARN'' = Some qa_arn \<longrightarrow>
            take 4 (fst (process_legal_document w bucket key)) =
              [HeadObject bucket key,
               Invoke qr_arn RequestResponse (doc_request bucket key),
               Invoke ocr_arn RequestResponse (doc_request bucket key),
               Invoke qa_arn RequestResponse (JDict [(''text'', text)])])
       \<and> (truthy text \<longrightarrow> env w ''BEDROCK_QA_FN_ARN'' = Some qa_arn \<longrightarrow>
            snd (sync_call w ''BEDROCK_QA_FN_ARN'' (JDict [(''text'', text)])) = Inr qa_result \<longrightarrow>
            env w ''RESULT_SAVER_FN_ARN'' = Some saver_arn \<longrightarrow>
            process_legal_document w bucket key =
              ([HeadObject bucket key,
                Invoke qr_arn RequestResponse (doc_request bucket key),
                Invoke ocr_arn RequestResponse (doc_request bucket key),
                Invoke qa_arn RequestResponse (JDict [(''text'', text)]),
                Invoke saver_arn Event
                  (JDict [(''bucket'', bucket), (''key'', JStr key), (''result'', qa_result)])],
               case invoke w saver_arn Event
                      (JDict [(''bucket'', bucket), (''key'', JStr key), (''result'', qa_result)]) of
                 Inl e \<Rightarrow> Inl e | Inr _ \<Rightarrow> Inr True))"
proof -
  let ?dreq = "doc_request bucket key"
  have dt: "document_type w bucket key = ([HeadObject bucket key], Inr ''legal registration'')"
    using document_type_eval[OF head md tag] legal by simp
  have q: "sync_call w ''QR_DETECTOR_FN_ARN'' ?dreq = ([Invoke qr_arn RequestResponse ?dreq], Inr qr_result)"
    using sync_call_trace[OF qr_arn, of ?dreq] qr by (simp add: prod_eq_iff)
  have o: "sync_call w ''VIETOCR_FN_ARN'' ?dreq = ([Invoke ocr_arn RequestResponse ?dreq], Inr ocr_result)"
    using sync_call_trace[OF ocr_arn, of ?dreq] ocr by (simp add: prod_eq_iff)
  have upto: "process_legal_document w bucket key =
      (if \<not> truthy text
       then ([HeadObject bucket key, Invoke qr_arn RequestResponse ?dreq,
              Invoke ocr_arn RequestResponse ?dreq], Inl (PyException ''VietOCR returned no text''))
       else andthen ([HeadObject bucket key, Invoke qr_arn RequestResponse ?dreq,
              Invoke ocr_arn RequestResponse ?dreq], Inr ())
         (\<lambda>_. andthen (lift (case env w ''BEDROCK_QA_FN_ARN'' of
                            None \<Rightarrow> Inl KeyError | Some a \<Rightarrow> Inr a)) (\<lambda>_.
           andthen (lift (subscript ocr_result ''text'')) (\<lambda>text'.
           andthen (sync_call w ''BEDROCK_QA_FN_ARN'' (JDict [(''text'', text')])) (\<lambda>qa_result.
           andthen (save_result w bucket key qa_result) (\<lambda>_.
           ret True))))))"
    by (simp add: process_legal_document_def dt q o nocode extracted andthen_lift_Inr andthen.simps
        raise_def)
  have A: "\<not> truthy text \<Longrightarrow> process_legal_document w bucket key =
              ([HeadObject bucket key, Invoke qr_arn RequestResponse ?dreq,
                Invoke ocr_arn RequestResponse ?dreq],
               Inl (PyException ''VietOCR returned no text''))"
    using upto by simp
  have B: "take 4 (fst (process_legal_document w bucket key)) =
              [HeadObject bucket key, Invoke qr_arn RequestResponse ?dreq,
               Invoke ocr_arn RequestResponse ?dreq,
               Invoke qa_arn RequestResponse (JDict [(''text'', text)])]"
    if t: "truthy text" and a: "env w ''BEDROCK_QA_FN_ARN'' = Some qa_arn"
  proof -
    let ?areq = "JDict [(''text'', text)]"
    have s: "subscript ocr_result ''text'' = Inr text"
      using truthy_subscript[OF extracted t] .
    obtain r where sc: "sync_call w ''BEDROCK_QA_FN_ARN'' ?areq = ([Invoke qa_arn RequestResponse ?areq], r)"
      using sync_call_trace[OF a, of ?areq] by (cases "sync_call w ''BEDROCK_QA_FN_ARN'' ?areq") simp
    show ?thesis
      using t by (cases r) (simp_all add: upto a s sc andthen_lift_Inr andthen.simps)
  qed
  have C: "process_legal_document w bucket key =
              ([HeadObject bucket key, Invoke qr_arn RequestResponse ?dreq,
                Invoke ocr_arn RequestResponse ?dreq,
                Invoke qa_arn RequestResponse (JDict [(''text'', text)]),
                Invoke saver_arn Event
                  (JDict [(''bucket'', bucket), (''key'', JStr key), (''result'', qa_result)])],
               case invoke w saver_arn Event
                      (JDict [(''bucket'', bucket), (''key'', JStr key), (''result'', qa_result)]) of
                 Inl e \<Rightarrow> Inl e | Inr _ \<Rightarrow> Inr True)"
    if t: "truthy text" and a: "env w ''BEDROCK_QA_FN_ARN'' = Some qa_arn"
      and qa: "snd (sync_call w ''BEDROCK_QA_FN_ARN'' (JDict [(''text'', text)])) = Inr qa_result"
      and sv: "env w ''RESULT_SAVER_FN_ARN'' = Some saver_arn"
  proof -
    let ?areq = "JDict [(''text'', text)]"
    have s: "subscript ocr_result ''text'' = Inr text"
      using truthy_subscript[OF extracted t] .
    have sc: "sync_call w ''BEDROCK_QA_FN_ARN'' ?areq = ([Invoke qa_arn RequestResponse ?areq], Inr qa_result)"
      using sync_call_trace[OF a, of ?areq] qa by (simp add: prod_eq_iff)
    show ?thesis
      using t
      by (simp add: upto a s sc andthen_lift_Inr andthen.simps save_result_eval[OF sv] ret_def
          split: sum.splits)
  qed
  from A B C show ?thesis by blast
qed


theorem slow_path_extraction_witness:
  "process_legal_document demo_world (JStr ''docs'') ''blank.pdf'' =
     ([HeadObject (JStr ''docs'') ''blank.pdf'',
       Invoke ''arn:qr'' RequestResponse (doc_request (JStr ''docs'') ''blank.pdf''),
       Invoke ''arn:ocr'' RequestResponse (doc_request (JStr ''docs'') ''blank.pdf'')],
      Inl (PyException ''VietOCR returned no text''))
   \<and> process_legal_document demo_world (JStr ''docs'') ''deed.pdf'' =
     ([HeadObject (JStr ''docs'') ''deed.pdf'',
       Invoke ''arn:qr'' RequestResponse (doc_request (JStr ''docs'') ''deed.pdf''),
       Invoke ''arn:ocr'' RequestResponse (doc_request (JStr ''docs'') ''deed.pdf''),
       Invoke ''arn:qa'' RequestResponse (JDict [(''text'', JStr ''GIAY CHUNG NHAN'')]),
       Invoke ''arn:save'' Event
         (JDict [(''bucket'', JStr ''docs''), (''key'', JStr ''deed.pdf''),
                 (''result'', JDict [(''owner'', JStr ''Nguyen Van A'')])])],
      Inr True)"
proof -
  let ?w = demo_world and ?b = "JStr ''docs''"
  let ?head = "JDict [(''Metadata'', JDict [(''document-type'', JStr ''Legal Registration'')])]"
  let ?md = "JDict [(''document-type'', JStr ''Legal Registration'')]"
  let ?qr = "JDict [(''hasQR'', JBool False)]"
  have lower: "map lower_char ''Legal Registration'' = ''legal registration''"
    by code_simp
  have md: "dict_get ?head ''Metadata'' (JDict []) = Inr ?md" by simp
  have tag: "dict_get ?md ''document-type'' (JStr []) = Inr (JStr ''Legal Registration'')" by simp
  have e1: "env ?w ''QR_DETECTOR_FN_ARN'' = Some ''arn:qr''" by (simp add: demo_world_def)
  have e2: "env ?w ''VIETOCR_FN_ARN'' = Some ''arn:ocr''" by (simp add: demo_world_def)
  have e3: "env ?w ''BEDROCK_QA_FN_ARN'' = Some ''arn:qa''" by (simp add: demo_world_def)
  have e4: "env ?w ''RESULT_SAVER_FN_ARN'' = Some ''arn:save''" by (simp add: demo_world_def)
  have nocode: "has_code ?qr = Inr False" by (simp add: has_code_def)
  have q: "snd (sync_call ?w ''QR_DETECTOR_FN_ARN'' (doc_request ?b k)) = Inr ?qr" for k
    by (simp add: sync_call_def invoke_fn_def demo_world_def emit_def lift_def unwrap_body_def)
  have h1: "head_object ?w ?b ''blank.pdf'' = Inr ?head" by (simp add: demo_world_def)
  have o1: "snd (sync_call ?w ''VIETOCR_FN_ARN'' (doc_request ?b ''blank.pdf''))
              = Inr (JDict [(''text'', JStr [])])"
    by (simp add: sync_call_def invoke_fn_def demo_world_def emit_def lift_def unwrap_body_def
        doc_request_def)
  have t1: "dict_get (JDict [(''text'', JStr [])]) ''text'' JNull = Inr (JStr [])" by simp
  have h2: "head_object ?w ?b ''deed.pdf'' = Inr ?head" by (simp add: demo_world_def)
  have o2: "snd (sync_call ?w ''VIETOCR_FN_ARN'' (doc_request ?b ''deed.pdf''))
              = Inr (JDict [(''text'', JStr ''GIAY CHUNG NHAN'')])"
    by (simp add: sync_call_def invoke_fn_def demo_world_def emit_def lift_def unwrap_body_def)
  have t2: "dict_get (JDict [(''text'', JStr ''GIAY CHUNG NHAN'')]) ''text'' JNull
              = Inr (JStr ''GIAY CHUNG NHAN'')" by simp
  have a2: "snd (sync_call ?w ''BEDROCK_QA_FN_ARN'' (JDict [(''text'', JStr ''GIAY CHUNG NHAN'')]))
              = Inr (JDict [(''owner'', JStr ''Nguyen Van A'')])"
    by (simp add: sync_call_def invoke_fn_def demo_world_def emit_def lift_def unwrap_body_def)
  have s2: "invoke ?w ''arn:save'' Event r = Inr ''ok''" for r by (simp add: demo_world_def)
  from slow_path_extraction[OF h1 md tag lower e1 q nocode e2 o1 t1]
  have A: "process_legal_document ?w ?b ''blank.pdf'' =
     ([HeadObject ?b ''blank.pdf'',
       Invoke ''arn:qr'' RequestResponse (doc_request ?b ''blank.pdf''),
       Invoke ''arn:ocr'' RequestResponse (doc_request ?b ''blank.pdf'')],
      Inl (PyException ''VietOCR returned no text''))" by simp
  from slow_path_extraction[OF h2 md tag lower e1 q nocode e2 o2 t2, of "''arn:qa''" _ "''arn:save''"] e3 a2 e4
  have B: "process_legal_document ?w ?b ''deed.pdf'' =
     ([HeadObject ?b ''deed.pdf'',
       Invoke ''arn:qr'' RequestResponse (doc_request ?b ''deed.pdf''),
       Invoke ''arn:ocr'' RequestResponse (doc_request ?b ''deed.pdf''),
       Invoke ''arn:qa'' RequestResponse (JDict [(''text'', JStr ''GIAY CHUNG NHAN'')]),
       Invoke ''arn:save'' Event
         (JDict [(''bucket'', ?b), (''key'', JStr ''deed.pdf''),
                 (''result'', JDict [(''owner'', JStr ''Nguyen Van A'')])])],
      Inr True)" by (simp add: s2)
  from A B show ?thesis by simp
qed

subsection \<open>A failing record in a batch\<close>

text \<open>
  Claim C1 says that a failure on one record neither stops the later records of the
  batch nor changes the batch response. On a batch of two records whose first document
  is missing from the bucket, the handler stops after the failed metadata lookup: the
  second document is never looked at and the response is a 500.
\<close>

theorem batch_failure_isolation_counterexample:
  "lambda_handler demo_world demo_batch
     = ([HeadObject (JStr ''docs'') ''missing.pdf''],
        \<lparr>statusCode = 500, body = ErrorOf (ClientError ''NoSuchKey'')\<rparr>)"
  by (simp add: lambda_handler_def run_records_def demo_batch_def handle_record_def
      handle_s3_record_def record_target_def s3_record_for_def process_legal_document_def
      document_type_def demo_world_def lift_def emit_def ret_def)

text \<open>
  Claim C1, as the code has it. \<^verbatim>\<open>lambda_handler\<close> runs both loops inside one
  \<^verbatim>\<open>try\<close>: the records are processed in order, the first exception raised while
  processing a record ends the batch (the records after it are not processed) and the
  response is status 500 with that error; when no record raises, every record is
  processed and the response is status 200, processing completed.
\<close>

theorem batch_stops_at_first_failure:
  assumes recs: "dict_get event ''Records'' (JList []) = Inr (JList rs)"
  shows "(\<forall>pre r post tp tr e.
            rs = pre @ r # post \<longrightarrow>
            for_each (handle_record w) pre = (tp, Inr ()) \<longrightarrow>
            handle_record w r = (tr, Inl e) \<longrightarrow>
            lambda_handler w event = (tp @ tr, \<lparr>statusCode = 500, body = ErrorOf e\<rparr>))
       \<and> (\<forall>t. for_each (handle_record w) rs = (t, Inr ()) \<longrightarrow>
            lambda_handler w event = (t, \<lparr>statusCode = 200, body = Completed\<rparr>))"
proof -
  have run: "run_records w event = for_each (handle_record w) rs"
    by (simp add: run_records_def recs andthen_lift_Inr)
  show ?thesis
    by (auto simp: lambda_handler_def run for_each_stops)
qed

theorem batch_stops_at_first_failure_witness:
  "lambda_handler demo_world demo_batch
     = ([HeadObject (JStr ''docs'') ''missing.pdf''],
        \<lparr>statusCode = 500, body = ErrorOf (ClientError ''NoSuchKey'')\<rparr>)
   \<and> lambda_handler demo_world demo_batch_ok
     = ([HeadObject (JStr ''docs'') ''invoice.pdf'', ExistingBedrock (JStr ''docs'') ''invoice.pdf'',
         HeadObject (JStr ''docs'') ''receipt.pdf'', ExistingBedrock (JStr ''docs'') ''receipt.pdf''],
        \<lparr>statusCode = 200, body = Completed\<rparr>)"
proof -
  let ?r1 = "JDict [(''Records'', JList [s3_record_for ''docs'' ''missing.pdf''])]"
  let ?r2 = "JDict [(''Records'', JList [s3_record_for ''docs'' ''invoice.pdf''])]"
  let ?r3 = "JDict [(''Records'', JList [s3_record_for ''docs'' ''receipt.pdf''])]"
  have recs: "dict_get demo_batch ''Records'' (JList []) = Inr (JList [?r1, ?r2])"
    by (simp add: demo_batch_def)
  have pre: "for_each (handle_record demo_world) [] = ([], Inr ())"
    by (simp add: ret_def)
  have fails: "handle_record demo_world ?r1
                 = ([HeadObject (JStr ''docs'') ''missing.pdf''], Inl (ClientError ''NoSuchKey''))"
    by (simp add: handle_record_def handle_s3_record_def record_target_def s3_record_for_def
        process_legal_document_def document_type_def demo_world_def lift_def emit_def ret_def)
  have split: "[?r1, ?r2] = [] @ ?r1 # [?r2]" by simp
  from batch_stops_at_first_failure[OF recs, of demo_world] split pre fails
  have A: "lambda_handler demo_world demo_batch
     = ([] @ [HeadObject (JStr ''docs'') ''missing.pdf''],
        \<lparr>statusCode = 500, body = ErrorOf (ClientError ''NoSuchKey'')\<rparr>)"
    by blast
  have recs_ok: "dict_get demo_batch_ok ''Records'' (JList []) = Inr (JList [?r2, ?r3])"
    by (simp add: demo_batch_ok_def)
  have other: "map lower_char ''Invoice'' \<noteq> ''legal registration''"
    by (simp add: lower_char_def)
  have one: "handle_record demo_world
               (JDict [(''Records'', JList [s3_record_for ''docs'' k])])
             = ([HeadObject (JStr ''docs'') k, ExistingBedrock (JStr ''docs'') k], Inr ())"
    if "k = ''invoice.pdf'' \<or> k = ''receipt.pdf''" for k
    using that other
    by (auto simp: handle_record_def handle_s3_record_def record_target_def s3_record_for_def
        process_legal_document_def document_type_def demo_world_def lift_def emit_def ret_def
        process_with_existing_bedrock_def)
  have all: "for_each (handle_record demo_world) [?r2, ?r3]
     = ([HeadObject (JStr ''docs'') ''invoice.pdf'', ExistingBedrock (JStr ''docs'') ''invoice.pdf'',
         HeadObject (JStr ''docs'') ''receipt.pdf'', ExistingBedrock (JStr ''docs'') ''receipt.pdf''],
        Inr ())"
    by (simp add: one ret_def)
  from batch_stops_at_first_failure[OF recs_ok, of demo_world] all
  have B: "lambda_handler demo_world demo_batch_ok
     = ([HeadObject (JStr ''docs'') ''invoice.pdf'', ExistingBedrock (JStr ''docs'') ''invoice.pdf'',
         HeadObject (JStr ''docs'') ''receipt.pdf'', ExistingBedrock (JStr ''docs'') ''receipt.pdf''],
        \<lparr>statusCode = 200, body = Completed\<rparr>)"
    by blast
  from A B show ?thesis by simp
qed

section \<open>Properties of the OCR server\<close>

subsection \<open>The recognition loop\<close>

lemma extract_patch_box:
  assumes "extract_patch b = Inr crop"
  shows "\<exists>sz. crop = Crop b sz"
  using assms
  by (cases b) (auto simp: extract_patch_def Let_def split: if_splits)

lemma extract_patch_usable:
  assumes "x1 < x2" and "y1 < y2"
  shows "\<exists>sz. extract_patch (x1, y1, x2, y2) = Inr (Crop (x1, y1, x2, y2) sz)"
  using assms by (auto simp: extract_patch_def Let_def)

lemma recognize_step:
  "recognize_regions rcg sx sy W H (poly # rest) =
     (if poly \<noteq> [] \<and> 4 \<le> length poly then
        (case scaled_region sx sy W H poly of
           Inl e \<Rightarrow>
             if e = IndexError \<or> e = TypeError \<or> e = ValueError
             then recognize_regions rcg sx sy W H rest
             else ([], Inl e)
         | Inr b \<Rightarrow>
             if fst b < fst (snd (snd b)) \<and> fst (snd b) < snd (snd (snd b)) then
               (case extract_patch b of
                  Inl e \<Rightarrow> ([], Inl e)
                | Inr crop \<Rightarrow>
                    (case rcg crop of
                       Inl e \<Rightarrow> ([crop], Inl e)
                     | Inr t \<Rightarrow>
                         (crop # fst (recognize_regions rcg sx sy W H rest),
                          case snd (recognize_regions rcg sx sy W H rest) of
                            Inl e \<Rightarrow> Inl e
                          | Inr ls \<Rightarrow> Inr (keep_line t @ ls))))
             else recognize_regions rcg sx sy W H rest)
      else recognize_regions rcg sx sy W H rest)"
  by (auto split: sum.splits prod.splits)

lemma recognize_calls_usable:
  "\<forall>c \<in> set (fst (recognize_regions rcg sx sy W H polys)).
     \<exists>x1 y1 x2 y2 sz. c = Crop (x1, y1, x2, y2) sz \<and> x1 < x2 \<and> y1 < y2"
proof (induction polys)
  case Nil
  show ?case by simp
next
  case (Cons poly rest)
  show ?case
    unfolding recognize_step
    using Cons.IH
    by (auto split: sum.splits dest!: extract_patch_box)
qed

lemma recognize_no_whole:
  "\<forall>c \<in> set (fst (recognize_regions rcg sx sy W H polys)). \<not> is_whole c"
  using recognize_calls_usable[of rcg sx sy W H polys] by fastforce

lemma dropWhile_strip_front:
  "dropWhile P (rev (dropWhile P (rev (dropWhile P s)))) = rev (dropWhile P (rev (dropWhile P s)))"
proof -
  let ?a = "dropWhile P s"
  let ?b = "rev (dropWhile P (rev ?a))"
  have split: "?a = ?b @ rev (takeWhile P (rev ?a))"
  proof -
    have "rev ?a = takeWhile P (rev ?a) @ dropWhile P (rev ?a)" by simp
    then have "rev (rev ?a) = rev (takeWhile P (rev ?a) @ dropWhile P (rev ?a))" by simp
    then show ?thesis by (simp del: takeWhile_dropWhile_id)
  qed
  show ?thesis
  proof (cases ?b)
    case Nil
    show ?thesis unfolding Nil by simp
  next
    case (Cons x xs)
    with split have "hd ?a = x" and "?a \<noteq> []"
      by (metis hd_append2 list.sel(1) list.distinct(1), metis append_is_Nil_conv list.distinct(1))
    then have "\<not> P x" using hd_dropWhile[of P s] by auto
    with Cons show ?thesis by simp
  qed
qed

lemma py_strip_idem: "py_strip (py_strip t) = py_strip t"
  unfolding py_strip_def
  by (simp add: dropWhile_strip_front)

lemma keep_line_kept: "\<forall>l \<in> set (keep_line t). l \<noteq> [] \<and> py_strip l = l"
  by (simp add: keep_line_def py_strip_idem)

lemma keep_line_length: "length (keep_line t) \<le> 1"
  by (simp add: keep_line_def)

lemma recognize_snd_cases:
  assumes "snd (recognize_regions rcg sx sy W H (poly # rest)) = Inr ls"
  shows "snd (recognize_regions rcg sx sy W H rest) = Inr ls
       \<or> (\<exists>t ls'. snd (recognize_regions rcg sx sy W H rest) = Inr ls' \<and> ls = keep_line t @ ls')"
  using assms unfolding recognize_step
  by (auto split: sum.splits if_splits)

lemma recognize_lines:
  assumes "snd (recognize_regions rcg sx sy W H polys) = Inr ls"
  shows "(\<forall>l \<in> set ls. l \<noteq> [] \<and> py_strip l = l) \<and> length ls \<le> length polys"
  using assms
proof (induction polys arbitrary: ls)
  case Nil
  then show ?case by simp
next
  case (Cons poly rest)
  from recognize_snd_cases[OF Cons.prems]
  show ?case
  proof
    assume "snd (recognize_regions rcg sx sy W H rest) = Inr ls"
    from Cons.IH[OF this] show ?thesis by simp
  next
    assume "\<exists>t ls'. snd (recognize_regions rcg sx sy W H rest) = Inr ls' \<and> ls = keep_line t @ ls'"
    then obtain t ls' where r: "snd (recognize_regions rcg sx sy W H rest) = Inr ls'"
      and ls: "ls = keep_line t @ ls'" by blast
    from Cons.IH[OF r] have ih: "\<forall>l \<in> set ls'. l \<noteq> [] \<and> py_strip l = l"
      and len: "length ls' \<le> length rest" by simp_all
    have "\<forall>l \<in> set ls. l \<noteq> [] \<and> py_strip l = l"
      using ih keep_line_kept[of t] by (auto simp: ls)
    moreover have "length ls \<le> length (poly # rest)"
      using len keep_line_length[of t] by (simp add: ls)
    ultimately show ?thesis by simp
  qed
qed


lemma recognize_lines_concat:
  assumes "snd (recognize_regions rcg sx sy W H polys) = Inr ls"
  shows "ls = concat (map (kept_of rcg) (fst (recognize_regions rcg sx sy W H polys)))"
  using assms
proof (induction polys arbitrary: ls)
  case Nil
  then show ?case by simp
next
  case (Cons poly rest)
  from Cons.prems show ?case
    unfolding recognize_step
    by (auto split: sum.splits if_splits simp: kept_of_def dest: Cons.IH)
qed


lemma run_pipeline_no_boxes:
  assumes "init_models s = None" and "find_boxes s (fst (views s image0)) = []"
  shows "run_pipeline s image0 =
           ([Whole (snd (views s image0))],
            case predict s (Whole (snd (views s image0))) of
              Inl e \<Rightarrow> ServerError e
            | Inr t \<Rightarrow> respond [] (keep_line t))"
  using assms by (simp add: run_pipeline_def Let_def split: sum.splits)




lemma ocr_ok_pipeline:
  assumes "ocr s data = (calls, Ok r)"
  shows "\<exists>image0. run_pipeline s image0 = (calls, Ok r)"
  using assms by (auto simp: ocr_def split: sum.splits if_splits)

lemma run_pipeline_ok:
  assumes "run_pipeline s image0 = (calls, Ok r)"
  shows "regions_detected r = length (lines r)
       \<and> lines r = concat (map (kept_of (predict s)) calls)
       \<and> (\<forall>l \<in> set (lines r). l \<noteq> [] \<and> py_strip l = l)
       \<and> ((\<exists>c \<in> set calls. is_whole c) \<longrightarrow> regions_detected r \<le> 1)
       \<and> (boxes_detected r \<noteq> 0 \<longrightarrow> regions_detected r \<le> boxes_detected r)"
proof (cases "find_boxes s (fst (views s image0)) = []")
  case True
  from assms have i: "init_models s = None"
    by (auto simp: run_pipeline_def Let_def split: option.splits)
  from assms run_pipeline_no_boxes[OF i True]
  obtain t where t: "predict s (Whole (snd (views s image0))) = Inr t"
    and c: "calls = [Whole (snd (views s image0))]" and r: "Ok r = respond [] (keep_line t)"
    by (auto split: sum.splits)
  from r have l: "lines r = keep_line t" and n: "regions_detected r = length (keep_line t)"
    and b: "boxes_detected r = 0"
    by (auto simp: respond_def)
  show ?thesis
    using keep_line_kept[of t] keep_line_length[of t]
    by (simp add: l n b c kept_of_def t)
next
  case False
  let ?d = "fst (views s image0)" and ?p = "snd (views s image0)"
  let ?boxes = "find_boxes s ?d"
  let ?run = "recognize_regions (predict s)
                (fl (of_int (width ?p) / of_int (width ?d)))
                (fl (of_int (height ?p) / of_int (height ?d)))
                (width ?p) (height ?p) ?boxes"
  from assms False have run: "fst ?run = calls" and "\<exists>ls. snd ?run = Inr ls \<and> Ok r = respond ?boxes ls"
    by (auto simp: run_pipeline_def Let_def split: option.splits sum.splits prod.splits if_splits)
  then obtain ls where ls: "snd ?run = Inr ls" and r: "Ok r = respond ?boxes ls" by blast
  from r have l: "lines r = ls" and n: "regions_detected r = length ls"
    and b: "boxes_detected r = length ?boxes"
    by (auto simp: respond_def)
  from recognize_lines[OF ls] have k: "\<forall>l \<in> set ls. l \<noteq> [] \<and> py_strip l = l"
    and len: "length ls \<le> length ?boxes" by simp_all
  from recognize_lines_concat[OF ls] run have cc: "ls = concat (map (kept_of (predict s)) calls)"
    by simp
  from recognize_no_whole[of "predict s" _ _ _ _ ?boxes] run
  have nw: "\<not> (\<exists>c \<in> set calls. is_whole c)" by auto
  show ?thesis
    using k len cc nw by (simp add: l n b)
qed

lemma demo_two:
  "ocr demo_server (request ''two'') =
     ([Crop (5, 5, 55, 55) (50, 50), Crop (95, 95, 305, 135) (252, 48)],
      Ok \<lparr>final_text = [65, 66], success = True, regions_detected = 1,
          boxes_detected = 2, lines = [[65, 66]]\<rparr>)"
  by code_simp




lemma demo_outside:
  "scaled_region 1 1 3000 2000 outside_box = Inr (3005, 5, 3000, 55)"
  by code_simp

lemma demo_second:
  "recognize_regions (predict demo_server) 1 1 3000 2000 [second_box]
     = ([Crop (95, 95, 305, 135) (252, 48)], Inr [[65, 66]])"
  by code_simp

lemma py_strip_Nil: "py_strip [] = []"
  by (simp add: py_strip_def)

lemma kept_of_strip:
  "kept_of rcg c = (case rcg c of Inl e \<Rightarrow> [] | Inr t \<Rightarrow> if py_strip t \<noteq> [] then [py_strip t] else [])"
  by (auto simp: kept_of_def keep_line_def py_strip_Nil split: sum.splits)

lemma length_kept:
  "length (concat (map (kept_of rcg) cs)) =
     length (filter (\<lambda>c. case rcg c of Inl e \<Rightarrow> False | Inr t \<Rightarrow> py_strip t \<noteq> []) cs)"
  by (induction cs) (auto simp: kept_of_strip split: sum.splits)

lemma map_kept:
  "concat (map (kept_of rcg) cs) =
     map (\<lambda>c. case rcg c of Inl e \<Rightarrow> [] | Inr t \<Rightarrow> py_strip t)
       (filter (\<lambda>c. case rcg c of Inl e \<Rightarrow> False | Inr t \<Rightarrow> py_strip t \<noteq> []) cs)"
  by (induction cs) (auto simp: kept_of_strip split: sum.splits)

lemma extract_patch_value:
  assumes "x1 < x2" and "y1 < y2"
  shows "extract_patch (x1, y1, x2, y2) =
           Inr (Crop (x1, y1, x2, y2)
                  (if y2 - y1 < 48
                   then (py_int (fl (of_int (x2 - x1) * fl (48 / of_int (y2 - y1)))), 48)
                   else (x2 - x1, y2 - y1)))"
  using assms by (simp add: extract_patch_def Let_def)

lemma recognize_calls_mapped:
  assumes "snd (recognize_regions rcg sx sy W H polys) = Inr ls"
  shows "list_all2 (\<lambda>c b. \<exists>sz. c = Crop b sz)
           (fst (recognize_regions rcg sx sy W H polys))
           (concat (map (\<lambda>poly.
              if 4 \<le> length poly then
                (case scaled_region sx sy W H poly of
                   Inl e \<Rightarrow> []
                 | Inr (x1, y1, x2, y2) \<Rightarrow> if x1 < x2 \<and> y1 < y2 then [(x1, y1, x2, y2)] else [])
              else []) polys))"
  using assms
proof (induction polys arbitrary: ls)
  case Nil
  then show ?case by simp
next
  case (Cons poly rest)
  from Cons.prems show ?case
    unfolding recognize_step
    by (auto split: sum.splits if_splits simp: extract_patch_value dest: Cons.IH)
qed


lemma run_pipeline_count:
  assumes "run_pipeline s image0 = (calls, Ok r)"
  shows "regions_detected r =
           length (filter (\<lambda>c. case predict s c of Inl e \<Rightarrow> False | Inr t \<Rightarrow> py_strip t \<noteq> []) calls)"
    and "lines r =
           map (\<lambda>c. case predict s c of Inl e \<Rightarrow> [] | Inr t \<Rightarrow> py_strip t)
             (filter (\<lambda>c. case predict s c of Inl e \<Rightarrow> False | Inr t \<Rightarrow> py_strip t \<noteq> []) calls)"
proof -
  from run_pipeline_ok[OF assms]
  have n: "regions_detected r = length (lines r)"
    and l: "lines r = concat (map (kept_of (predict s)) calls)" by simp_all
  show "regions_detected r =
           length (filter (\<lambda>c. case predict s c of Inl e \<Rightarrow> False | Inr t \<Rightarrow> py_strip t \<noteq> []) calls)"
    unfolding n l by (rule length_kept)
  show "lines r =
           map (\<lambda>c. case predict s c of Inl e \<Rightarrow> [] | Inr t \<Rightarrow> py_strip t)
             (filter (\<lambda>c. case predict s c of Inl e \<Rightarrow> False | Inr t \<Rightarrow> py_strip t \<noteq> []) calls)"
    unfolding l by (rule map_kept)
qed

lemma demo_two_texts:
  "predict demo_server (Crop (5, 5, 55, 55) (50, 50)) = Inr [32, 32]"
  "py_strip [32, 32] = []"
  "predict demo_server (Crop (95, 95, 305, 135) (252, 48)) = Inr [65, 66]"
  "py_strip [65, 66] = [65, 66]"
  by code_simp+

subsection \<open>Empty regions\<close>

text \<open>
  Claim C7. Every patch the loop gives to the recogniser is the crop of a box with
  \<open>x2 > x1\<close> and \<open>y2 > y1\<close>. A polygon whose clamped box has \<open>x2 \<le> x1\<close> or
  \<open>y2 \<le> y1\<close> is skipped without an error: the loop goes on as if the polygon were
  not in the list, so it is neither cropped nor recognised. A polygon of at least four
  points whose box has \<open>x2 > x1\<close> and \<open>y2 > y1\<close> is cropped and its crop is the next
  patch recognised.
\<close>

theorem empty_regions_never_recognised:
  "(\<forall>c \<in> set (fst (recognize_regions rcg sx sy W H polys)).
      \<exists>x1 y1 x2 y2 sz. c = Crop (x1, y1, x2, y2) sz \<and> x1 < x2 \<and> y1 < y2)
   \<and> (\<forall>poly rest x1 y1 x2 y2.
         scaled_region sx sy W H poly = Inr (x1, y1, x2, y2) \<longrightarrow> (x2 \<le> x1 \<or> y2 \<le> y1) \<longrightarrow>
         recognize_regions rcg sx sy W H (poly # rest) = recognize_regions rcg sx sy W H rest)
   \<and> (\<forall>poly rest x1 y1 x2 y2.
         4 \<le> length poly \<longrightarrow> scaled_region sx sy W H poly = Inr (x1, y1, x2, y2) \<longrightarrow>
         x1 < x2 \<longrightarrow> y1 < y2 \<longrightarrow>
         (\<exists>sz. extract_patch (x1, y1, x2, y2) = Inr (Crop (x1, y1, x2, y2) sz)
             \<and> fst (recognize_regions rcg sx sy W H (poly # rest)) =
                 Crop (x1, y1, x2, y2) sz #
                   (case rcg (Crop (x1, y1, x2, y2) sz) of
                      Inl e \<Rightarrow> []
                    | Inr t \<Rightarrow> fst (recognize_regions rcg sx sy W H rest))))"
proof (intro conjI allI impI)
  show "\<forall>c \<in> set (fst (recognize_regions rcg sx sy W H polys)).
      \<exists>x1 y1 x2 y2 sz. c = Crop (x1, y1, x2, y2) sz \<and> x1 < x2 \<and> y1 < y2"
    by (rule recognize_calls_usable)
next
  fix poly rest x1 y1 x2 y2
  assume "scaled_region sx sy W H poly = Inr (x1, y1, x2, y2)" and "x2 \<le> x1 \<or> y2 \<le> y1"
  then show "recognize_regions rcg sx sy W H (poly # rest) = recognize_regions rcg sx sy W H rest"
    unfolding recognize_step by auto
next
  fix poly :: polygon and rest x1 y1 x2 y2
  assume len: "4 \<le> length poly"
    and reg: "scaled_region sx sy W H poly = Inr (x1, y1, x2, y2)"
    and x: "x1 < x2" and y: "y1 < y2"
  from extract_patch_usable[OF x y] obtain sz
    where ex: "extract_patch (x1, y1, x2, y2) = Inr (Crop (x1, y1, x2, y2) sz)" by blast
  from len have ne: "poly \<noteq> []" by auto
  have "fst (recognize_regions rcg sx sy W H (poly # rest)) =
          Crop (x1, y1, x2, y2) sz #
            (case rcg (Crop (x1, y1, x2, y2) sz) of
               Inl e \<Rightarrow> []
             | Inr t \<Rightarrow> fst (recognize_regions rcg sx sy W H rest))"
    unfolding recognize_step using len ne reg x y ex
    by (simp split: sum.splits)
  with ex show "\<exists>sz. extract_patch (x1, y1, x2, y2) = Inr (Crop (x1, y1, x2, y2) sz)
             \<and> fst (recognize_regions rcg sx sy W H (poly # rest)) =
                 Crop (x1, y1, x2, y2) sz #
                   (case rcg (Crop (x1, y1, x2, y2) sz) of
                      Inl e \<Rightarrow> []
                    | Inr t \<Rightarrow> fst (recognize_regions rcg sx sy W H rest))"
    by blast
qed

theorem empty_regions_never_recognised_witness:
  "recognize_regions (predict demo_server) 1 1 3000 2000 [outside_box, second_box]
     = ([Crop (95, 95, 305, 135) (252, 48)], Inr [[65, 66]])"
proof -
  from empty_regions_never_recognised[of "predict demo_server" 1 1 3000 2000 "[]"]
  have skip: "\<And>poly rest x1 y1 x2 y2.
         scaled_region 1 1 3000 2000 poly = Inr (x1, y1, x2, y2) \<Longrightarrow> x2 \<le> x1 \<or> y2 \<le> y1 \<Longrightarrow>
         recognize_regions (predict demo_server) 1 1 3000 2000 (poly # rest)
           = recognize_regions (predict demo_server) 1 1 3000 2000 rest"
    by blast
  have "recognize_regions (predict demo_server) 1 1 3000 2000 [outside_box, second_box]
          = recognize_regions (predict demo_server) 1 1 3000 2000 [second_box]"
    by (rule skip[OF demo_outside]) simp
  from this demo_second show ?thesis by (rule trans)
qed

subsection \<open>The whole-image fallback\<close>




subsection \<open>The count of regions in the response\<close>

text \<open>
  Claim C10. In a successful response \<^verbatim>\<open>regions_detected\<close> is the number of lines
  kept: it is the number of patches recognised whose text is non-empty after trimming,
  and the lines are the trimmed texts of those patches, in order; each kept line is
  non-empty and trimmed. It is at most 1 when the whole image was recognised, and it
  never exceeds the number of detected boxes when there are any. It is not the number
  of boxes: on the page with two boxes, the first of which reads two blanks and the
  second \<^verbatim>\<open>AB\<close>, both boxes are recognised, \<^verbatim>\<open>boxes_detected\<close> is 2 and
  \<^verbatim>\<open>regions_detected\<close> is 1.
\<close>

theorem regions_detected_counts_kept_lines:
  "(\<forall>calls r. ocr s data = (calls, Ok r) \<longrightarrow>
       regions_detected r = length (lines r)
     \<and> regions_detected r =
         length (filter (\<lambda>c. case predict s c of Inl e \<Rightarrow> False | Inr t \<Rightarrow> py_strip t \<noteq> []) calls)
     \<and> lines r =
         map (\<lambda>c. case predict s c of Inl e \<Rightarrow> [] | Inr t \<Rightarrow> py_strip t)
           (filter (\<lambda>c. case predict s c of Inl e \<Rightarrow> False | Inr t \<Rightarrow> py_strip t \<noteq> []) calls)
     \<and> lines r = concat (map (kept_of (predict s)) calls)
     \<and> (\<forall>l \<in> set (lines r). l \<noteq> [] \<and> py_strip l = l)
     \<and> ((\<exists>c \<in> set calls. is_whole c) \<longrightarrow> regions_detected r \<le> 1)
     \<and> (boxes_detected r \<noteq> 0 \<longrightarrow> regions_detected r \<le> boxes_detected r))
   \<and> ocr demo_server (request ''two'') =
       ([Crop (5, 5, 55, 55) (50, 50), Crop (95, 95, 305, 135) (252, 48)],
        Ok \<lparr>final_text = [65, 66], success = True, regions_detected = 1,
            boxes_detected = 2, lines = [[65, 66]]\<rparr>)
   \<and> predict demo_server (Crop (5, 5, 55, 55) (50, 50)) = Inr [32, 32]
   \<and> py_strip [32, 32] = []
   \<and> predict demo_server (Crop (95, 95, 305, 135) (252, 48)) = Inr [65, 66]
   \<and> py_strip [65, 66] = [65, 66]"
proof (rule conjI)
  show "\<forall>calls r. ocr s data = (calls, Ok r) \<longrightarrow>
       regions_detected r = length (lines r)
     \<and> regions_detected r =
         length (filter (\<lambda>c. case predict s c of Inl e \<Rightarrow> False | Inr t \<Rightarrow> py_strip t \<noteq> []) calls)
     \<and> lines r =
         map (\<lambda>c. case predict s c of Inl e \<Rightarrow> [] | Inr t \<Rightarrow> py_strip t)
           (filter (\<lambda>c. case predict s c of Inl e \<Rightarrow> False | Inr t \<Rightarrow> py_strip t \<noteq> []) calls)
     \<and> lines r = concat (map (kept_of (predict s)) calls)
     \<and> (\<forall>l \<in> set (lines r). l \<noteq> [] \<and> py_strip l = l)
     \<and> ((\<exists>c \<in> set calls. is_whole c) \<longrightarrow> regions_detected r \<le> 1)
     \<and> (boxes_detected r \<noteq> 0 \<longrightarrow> regions_detected r \<le> boxes_detected r)"
  proof (intro allI impI)
    fix calls r
    assume "ocr s data = (calls, Ok r)"
    from ocr_ok_pipeline[OF this] obtain image0 where run: "run_pipeline s image0 = (calls, Ok r)"
      by blast
    from run_pipeline_ok[OF run]
    have a: "regions_detected r = length (lines r)"
      and b: "lines r = concat (map (kept_of (predict s)) calls)
     \<and> (\<forall>l \<in> set (lines r). l \<noteq> [] \<and> py_strip l = l)
     \<and> ((\<exists>c \<in> set calls. is_whole c) \<longrightarrow> regions_detected r \<le> 1)
     \<and> (boxes_detected r \<noteq> 0 \<longrightarrow> regions_detected r \<le> boxes_detected r)"
      by blast+
    from a run_pipeline_count[OF run] b
    show "regions_detected r = length (lines r)
     \<and> regions_detected r =
         length (filter (\<lambda>c. case predict s c of Inl e \<Rightarrow> False | Inr t \<Rightarrow> py_strip t \<noteq> []) calls)
     \<and> lines r =
         map (\<lambda>c. case predict s c of Inl e \<Rightarrow> [] | Inr t \<Rightarrow> py_strip t)
           (filter (\<lambda>c. case predict s c of Inl e \<Rightarrow> False | Inr t \<Rightarrow> py_strip t \<noteq> []) calls)
     \<and> lines r = concat (map (kept_of (predict s)) calls)
     \<and> (\<forall>l \<in> set (lines r). l \<noteq> [] \<and> py_strip l = l)
     \<and> ((\<exists>c \<in> set calls. is_whole c) \<longrightarrow> regions_detected r \<le> 1)
     \<and> (boxes_detected r \<noteq> 0 \<longrightarrow> regions_detected r \<le> boxes_detected r)"
      by blast
  qed
next
  show "ocr demo_server (request ''two'') =
       ([Crop (5, 5, 55, 55) (50, 50), Crop (95, 95, 305, 135) (252, 48)],
        Ok \<lparr>final_text = [65, 66], success = True, regions_detected = 1,
            boxes_detected = 2, lines = [[65, 66]]\<rparr>)
   \<and> predict demo_server (Crop (5, 5, 55, 55) (50, 50)) = Inr [32, 32]
   \<and> py_strip [32, 32] = []
   \<and> predict demo_server (Crop (95, 95, 305, 135) (252, 48)) = Inr [65, 66]
   \<and> py_strip [65, 66] = [65, 66]"
    by (intro conjI) (rule demo_two demo_two_texts)+
qed

theorem regions_detected_counts_kept_lines_witness:
  "ocr demo_server (request ''two'') =
     ([Crop (5, 5, 55, 55) (50, 50), Crop (95, 95, 305, 135) (252, 48)],
      Ok \<lparr>final_text = [65, 66], success = True, regions_detected = 1,
          boxes_detected = 2, lines = [[65, 66]]\<rparr>)
   \<and> length (filter (\<lambda>c. case predict demo_server c of Inl e \<Rightarrow> False | Inr t \<Rightarrow> py_strip t \<noteq> [])
               [Crop (5, 5, 55, 55) (50, 50), Crop (95, 95, 305, 135) (252, 48)]) = 1
   \<and> map (\<lambda>c. case predict demo_server c of Inl e \<Rightarrow> [] | Inr t \<Rightarrow> py_strip t)
       (filter (\<lambda>c. case predict demo_server c of Inl e \<Rightarrow> False | Inr t \<Rightarrow> py_strip t \<noteq> [])
          [Crop (5, 5, 55, 55) (50, 50), Crop (95, 95, 305, 135) (252, 48)]) = [[65, 66]]"
proof -
  let ?calls = "[Crop (5, 5, 55, 55) (50, 50), Crop (95, 95, 305, 135) (252, 48)]"
  let ?r = "\<lparr>final_text = [65, 66], success = True, regions_detected = 1,
            boxes_detected = 2, lines = [[65, 66]]\<rparr>"
  note T = regions_detected_counts_kept_lines[of demo_server "request ''two''"]
  from T have run: "ocr demo_server (request ''two'') = (?calls, Ok ?r)" by blast
  from T have "ocr demo_server (request ''two'') = (?calls, Ok ?r) \<longrightarrow>
       regions_detected ?r =
         length (filter (\<lambda>c. case predict demo_server c of Inl e \<Rightarrow> False | Inr t \<Rightarrow> py_strip t \<noteq> []) ?calls)
     \<and> lines ?r =
         map (\<lambda>c. case predict demo_server c of Inl e \<Rightarrow> [] | Inr t \<Rightarrow> py_strip t)
           (filter (\<lambda>c. case predict demo_server c of Inl e \<Rightarrow> False | Inr t \<Rightarrow> py_strip t \<noteq> []) ?calls)"
    by blast
  with run have n: "regions_detected ?r =
         length (filter (\<lambda>c. case predict demo_server c of Inl e \<Rightarrow> False | Inr t \<Rightarrow> py_strip t \<noteq> []) ?calls)"
    and l: "lines ?r =
         map (\<lambda>c. case predict demo_server c of Inl e \<Rightarrow> [] | Inr t \<Rightarrow> py_strip t)
           (filter (\<lambda>c. case predict demo_server c of Inl e \<Rightarrow> False | Inr t \<Rightarrow> py_strip t \<noteq> []) ?calls)"
    by blast+
  have "regions_detected ?r = 1" and "lines ?r = [[65, 66]]" by simp_all
  with n l have "length (filter (\<lambda>c. case predict demo_server c of Inl e \<Rightarrow> False | Inr t \<Rightarrow> py_strip t \<noteq> []) ?calls) = 1"
    and "map (\<lambda>c. case predict demo_server c of Inl e \<Rightarrow> [] | Inr t \<Rightarrow> py_strip t)
           (filter (\<lambda>c. case predict demo_server c of Inl e \<Rightarrow> False | Inr t \<Rightarrow> py_strip t \<noteq> []) ?calls) = [[65, 66]]"
    by (simp_all only:)
  with run show ?thesis by blast
qed

section \<open>Properties of Python floats\<close>

lemma round_half_even_error: "\<bar>of_int (round_half_even r) - r\<bar> \<le> 1 / 2"
proof -
  have "of_int \<lfloor>r\<rfloor> \<le> r" and "r < of_int \<lfloor>r\<rfloor> + 1" by linarith+
  then show ?thesis
    by (auto simp: round_half_even_def Let_def)
qed

lemma pos_quotient:
  assumes "0 < (a::rat)" and "quotient_of a = (p, q)"
  shows "0 < p" and "0 < q" and "a = of_int p / of_int q"
proof -
  show q: "0 < q" using assms(2) by (rule quotient_of_denom_pos)
  show a: "a = of_int p / of_int q" using assms(2) by (rule quotient_of_div)
  show "0 < p"
  proof (rule ccontr)
    assume "\<not> 0 < p"
    then have "of_int p \<le> (0::rat)" by simp
    with q have "of_int p / of_int q \<le> (0::rat)" by (simp add: divide_nonpos_pos)
    with a assms(1) show False by simp
  qed
qed

lemma bitlen_bracket:
  assumes "0 < p"
  shows "(2::rat) powi (bitlen p - 1) \<le> of_int p" and "of_int p < (2::rat) powi bitlen p"
proof -
  from bitlen_bounds[OF assms]
  have lo: "2 ^ nat (bitlen p - 1) \<le> p" and hi: "p < 2 ^ nat (bitlen p)" by simp_all
  have b1: "1 \<le> bitlen p" using assms by (simp add: bitlen_alt_def)
  from lo have "(of_int (2 ^ nat (bitlen p - 1)) :: rat) \<le> of_int p" by (simp only: of_int_le_iff)
  then show "(2::rat) powi (bitlen p - 1) \<le> of_int p"
    using b1 by (simp add: power_int_def)
  from hi have "(of_int p :: rat) < of_int (2 ^ nat (bitlen p))" by (simp only: of_int_less_iff)
  then show "of_int p < (2::rat) powi bitlen p"
    using b1 by (simp add: power_int_def)
qed

lemma float_exponent_bracket:
  assumes "x \<noteq> 0"
  shows "2 powi float_exponent x \<le> \<bar>x\<bar>" and "\<bar>x\<bar> < 2 powi (float_exponent x + 1)"
proof -
  obtain p q where pq: "quotient_of \<bar>x\<bar> = (p, q)" by (cases "quotient_of \<bar>x\<bar>")
  from assms have a: "0 < \<bar>x\<bar>" by simp
  note P = pos_quotient[OF a pq]
  let ?e = "bitlen p - bitlen q"
  have qpos: "(0::rat) < of_int q" using P(2) by simp
  have up: "\<bar>x\<bar> < 2 powi (?e + 1)"
  proof -
    have "of_int p < (2::rat) powi bitlen p" using bitlen_bracket(2)[OF P(1)] .
    also have "\<dots> = 2 powi (?e + 1) * 2 powi (bitlen q - 1)"
      by (simp add: power_int_add[symmetric])
    also have "\<dots> \<le> 2 powi (?e + 1) * of_int q"
      using bitlen_bracket(1)[OF P(2)] by (simp add: mult_left_mono)
    finally have "of_int p / of_int q < (2::rat) powi (?e + 1)"
      using qpos by (simp add: pos_divide_less_eq)
    with P(3) show ?thesis by simp
  qed
  have lo: "2 powi (?e - 1) \<le> \<bar>x\<bar>"
  proof -
    have "(2::rat) powi (?e - 1) * of_int q \<le> 2 powi (?e - 1) * 2 powi bitlen q"
      using bitlen_bracket(2)[OF P(2)] by (simp add: mult_left_mono)
    also have "\<dots> = 2 powi (bitlen p - 1)"
      by (simp add: power_int_add[symmetric])
    also have "\<dots> \<le> of_int p" using bitlen_bracket(1)[OF P(1)] .
    finally have "(2::rat) powi (?e - 1) \<le> of_int p / of_int q"
      using qpos by (simp add: pos_le_divide_eq)
    with P(3) show ?thesis by simp
  qed
  have fe: "float_exponent x = (if 2 powi ?e \<le> \<bar>x\<bar> then ?e else ?e - 1)"
    by (simp add: float_exponent_def pq Let_def)
  show "2 powi float_exponent x \<le> \<bar>x\<bar>"
    using lo by (simp add: fe)
  show "\<bar>x\<bar> < 2 powi (float_exponent x + 1)"
    using up by (simp add: fe)
qed

text \<open>The rounding error of \<open>fl\<close> is at most half a unit in the last place.\<close>

lemma fl_error:
  assumes "0 < x"
  shows "\<bar>fl x - x\<bar> \<le> x / 2 ^ 53"
proof -
  let ?e = "float_exponent x"
  let ?u = "(2::rat) powi (?e - 52)"
  have x0: "x \<noteq> 0" using assms by simp
  have upos: "0 < ?u" by (simp add: zero_less_power_int)
  have flx: "fl x = of_int (round_half_even (x / ?u)) * ?u"
    using x0 by (simp add: fl_def Let_def)
  have "\<bar>fl x - x\<bar> = \<bar>of_int (round_half_even (x / ?u)) - x / ?u\<bar> * ?u"
  proof -
    have "fl x - x = (of_int (round_half_even (x / ?u)) - x / ?u) * ?u"
      using upos by (simp add: flx left_diff_distrib)
    then show ?thesis using upos by (simp add: abs_mult)
  qed
  also have "\<dots> \<le> 1 / 2 * ?u"
    using round_half_even_error[of "x / ?u"] upos by (simp add: mult_right_mono)
  also have "\<dots> = 2 powi ?e / 2 ^ 53"
  proof -
    have "(2::rat) powi ?e = 2 powi ((?e - 52) + 52)" by simp
    also have "\<dots> = ?u * 2 powi 52" by (rule power_int_add) simp
    also have "(2::rat) powi 52 = 2 ^ 52" by (simp add: power_int_def)
    finally have "(2::rat) powi ?e = ?u * 2 ^ 52" .
    then show ?thesis by simp
  qed
  also have "\<dots> \<le> x / 2 ^ 53"
    using float_exponent_bracket(1)[OF x0] assms by (simp add: divide_right_mono)
  finally show ?thesis .
qed


lemma fl_pos_bounds:
  assumes "0 < x"
  shows "x - x / 2 ^ 53 \<le> fl x" and "fl x \<le> x + x / 2 ^ 53" and "0 < fl x"
proof -
  from fl_error[OF assms] show lo: "x - x / 2 ^ 53 \<le> fl x" and "fl x \<le> x + x / 2 ^ 53"
    by linarith+
  have "x / 2 ^ 53 < x" using assms by (simp add: field_simps)
  with lo show "0 < fl x" by linarith
qed

text \<open>A product rounded after a rounded quotient stays within three roundings of the exact value.\<close>

lemma fl_scale_close:
  assumes a: "0 < (a::rat)" and q: "0 < (q::rat)"
  shows "\<bar>fl (a * fl q) - a * q\<bar> \<le> 3 * (a * q) / 2 ^ 53" and "0 < fl (a * fl q)"
proof -
  let ?e = "(1::rat) / 2 ^ 53"
  let ?E = "a * q"
  have e0: "0 < ?e" and e1: "?e \<le> 1" by simp_all
  have E0: "0 < ?E" using a q by simp
  note s = fl_pos_bounds[OF q]
  have P0: "0 < a * fl q" using a s(3) by simp
  note p = fl_pos_bounds[OF P0]
  show "0 < fl (a * fl q)" by (rule p(3))
  have Plo: "?E - ?E * ?e \<le> a * fl q"
  proof -
    have "a * (q - q / 2 ^ 53) \<le> a * fl q" using s(1) a by (simp add: mult_left_mono)
    then show ?thesis by (simp add: right_diff_distrib)
  qed
  have Phi: "a * fl q \<le> ?E + ?E * ?e"
  proof -
    have "a * fl q \<le> a * (q + q / 2 ^ 53)" using s(2) a by (simp add: mult_left_mono)
    then show ?thesis by (simp add: distrib_left)
  qed
  have up: "fl (a * fl q) \<le> ?E + 3 * ?E * ?e"
  proof -
    have "fl (a * fl q) \<le> a * fl q + (a * fl q) * ?e" using p(2) by simp
    also have "\<dots> = (a * fl q) * (1 + ?e)" by (simp add: distrib_left)
    also have "\<dots> \<le> (?E + ?E * ?e) * (1 + ?e)"
      using Phi e0 by (intro mult_right_mono) simp_all
    also have "\<dots> = ?E + 2 * ?E * ?e + ?E * (?e * ?e)" by (simp add: algebra_simps)
    also have "\<dots> \<le> ?E + 2 * ?E * ?e + ?E * (?e * 1)"
      using E0 by (intro add_left_mono mult_left_mono) simp_all
    also have "\<dots> = ?E + 3 * ?E * ?e" by simp
    finally show ?thesis .
  qed
  have lo: "?E - 3 * ?E * ?e \<le> fl (a * fl q)"
  proof -
    have "(?E - ?E * ?e) * (1 - ?e) \<le> (a * fl q) * (1 - ?e)"
      using Plo by (intro mult_right_mono) simp_all
    also have "\<dots> = a * fl q - (a * fl q) * ?e" by (simp add: right_diff_distrib)
    also have "\<dots> \<le> fl (a * fl q)" using p(1) by simp
    finally have "(?E - ?E * ?e) * (1 - ?e) \<le> fl (a * fl q)" .
    moreover have "(?E - ?E * ?e) * (1 - ?e) = ?E - 2 * ?E * ?e + ?E * (?e * ?e)"
      by (simp add: algebra_simps)
    moreover have "0 \<le> ?E * (?e * ?e)" using E0 by simp
    ultimately have "?E - 2 * ?E * ?e \<le> fl (a * fl q)" by linarith
    moreover have "0 \<le> ?E * ?e" using E0 by simp
    ultimately show ?thesis by linarith
  qed
  have "3 * ?E * ?e = 3 * (a * q) / 2 ^ 53" by simp
  with up lo show "\<bar>fl (a * fl q) - a * q\<bar> \<le> 3 * (a * q) / 2 ^ 53"
    by linarith
qed

text \<open>
  \<^verbatim>\<open>int(a * (n / m))\<close> for positive integers: the exact quotient rounded down, or one
  less when the exact quotient is a whole number.
\<close>

lemma float_scale_trunc:
  fixes a n m :: int
  assumes a: "0 < a" and n: "0 < n" and m: "0 < m" and small: "a * n < 2 ^ 50"
  shows "(a * n) div m - 1 \<le> py_int (fl (of_int a * fl (of_int n / of_int m)))"
    and "py_int (fl (of_int a * fl (of_int n / of_int m))) \<le> (a * n) div m"
    and "\<not> m dvd a * n \<Longrightarrow> py_int (fl (of_int a * fl (of_int n / of_int m))) = (a * n) div m"
proof -
  let ?q = "(of_int n / of_int m :: rat)"
  let ?E = "of_int a * ?q"
  let ?p = "fl (of_int a * fl ?q)"
  let ?k = "(a * n) div m"
  let ?r = "(a * n) mod m"
  have ra: "(0::rat) < of_int a" and rm: "(0::rat) < of_int m" using a m by simp_all
  have q0: "0 < ?q" using n m by simp
  note close = fl_scale_close[OF ra q0]
  have p0: "0 < ?p" by (rule close(2))
  have pint: "py_int ?p = \<lfloor>?p\<rfloor>" using p0 by (simp add: py_int_def)
  have Eeq: "?E = of_int ?k + of_int ?r / of_int m"
  proof -
    have "a * n = m * ?k + ?r" by simp
    then have "(of_int (a * n) :: rat) = of_int (m * ?k + ?r)" by (simp only:)
    then have "(of_int a * of_int n :: rat) = of_int m * of_int ?k + of_int ?r"
      by (simp only: of_int_mult of_int_add)
    then have "(of_int a * of_int n :: rat) / of_int m = (of_int m * of_int ?k + of_int ?r) / of_int m"
      by (simp only:)
    then show ?thesis using rm by (simp add: add_divide_distrib)
  qed
  have r_lo: "0 \<le> ?r" and r_hi: "?r \<le> m - 1" using m by simp_all
  have err: "3 * ?E / 2 ^ 53 < 1 / (2 * of_int m)"
  proof -
    have "6 * (a * n) < 2 ^ 53" using small by simp
    then have "(of_int (6 * (a * n)) :: rat) < of_int (2 ^ 53)" by (simp only: of_int_less_iff)
    then have "(6::rat) * (of_int a * of_int n) < 2 ^ 53" by simp
    then show ?thesis using rm by (simp add: field_simps)
  qed
  from close(1) err have near: "\<bar>?p - ?E\<bar> < 1 / (2 * of_int m)" by linarith
  have half: "1 / (2 * of_int m) \<le> (1::rat) / 2" using m by (simp add: field_simps)
  have rfrac: "of_int ?r / of_int m \<le> (1::rat) - 1 / of_int m"
  proof -
    have "(of_int ?r :: rat) \<le> of_int (m - 1)" using r_hi by (simp only: of_int_le_iff)
    then have "(of_int ?r :: rat) / of_int m \<le> of_int (m - 1) / of_int m"
      using rm by (simp add: divide_right_mono)
    also have "\<dots> = 1 - 1 / of_int m" using rm by (simp add: field_simps)
    finally show ?thesis .
  qed
  have twice: "1 / (2 * of_int m) < (1::rat) / of_int m" using rm by (simp add: field_simps)
  have rnn: "(0::rat) \<le> of_int ?r / of_int m" using r_lo rm by simp
  have "?p < of_int ?k + 1" using near Eeq rfrac twice by linarith
  then have "?p < of_int (?k + 1)" by simp
  then have "\<lfloor>?p\<rfloor> < ?k + 1" by (simp only: floor_less_iff)
  then show hi: "py_int ?p \<le> ?k" by (simp add: pint)
  have "of_int (?k - 1) \<le> ?p" using near Eeq rnn half by linarith
  then have "?k - 1 \<le> \<lfloor>?p\<rfloor>" by (simp only: le_floor_iff)
  then show "?k - 1 \<le> py_int ?p" by (simp add: pint)
  show "py_int ?p = ?k" if nd: "\<not> m dvd a * n"
  proof -
    from nd have "?r \<noteq> 0" by (simp add: dvd_eq_mod_eq_0)
    with r_lo have "1 \<le> ?r" by simp
    then have "(of_int 1 :: rat) \<le> of_int ?r" by (simp only: of_int_le_iff)
    then have "(1::rat) / of_int m \<le> of_int ?r / of_int m"
      using rm by (simp add: divide_right_mono)
    then have "of_int ?k \<le> ?p" using near Eeq twice by linarith
    then have "?k \<le> \<lfloor>?p\<rfloor>" by (simp only: le_floor_iff)
    with hi show ?thesis by (simp add: pint)
  qed
qed



section \<open>Properties of the Coordinate Mapper and the Region Extractor\<close>

lemma scaled_coords_pairs:
  "scaled_coords s 0 (map (\<lambda>p. [fst p, snd p]) pts) = Inr (map (\<lambda>p. py_int (fl (fl (fst p) * s))) pts)"
  "scaled_coords s 1 (map (\<lambda>p. [fst p, snd p]) pts) = Inr (map (\<lambda>p. py_int (fl (fl (snd p) * s))) pts)"
  by (induction pts) (simp_all add: coord_def)

lemma py_min_Min: "xs \<noteq> [] \<Longrightarrow> py_min xs = Inr (Min (set xs))"
proof (cases xs)
  case (Cons a list)
  have "fold min list a = Min (set (a # list))" by (rule Min.set_eq_fold[symmetric])
  with Cons show ?thesis by (simp only: py_min.simps)
qed simp

lemma py_max_Max: "xs \<noteq> [] \<Longrightarrow> py_max xs = Inr (Max (set xs))"
proof (cases xs)
  case (Cons a list)
  have "fold max list a = Max (set (a # list))" by (rule Max.set_eq_fold[symmetric])
  with Cons show ?thesis by (simp only: py_max.simps)
qed simp

lemma run_pipeline_regions:
  assumes "init_models s = None" and "find_boxes s (fst (views s image0)) \<noteq> []"
    and "width (fst (views s image0)) \<noteq> 0" and "height (fst (views s image0)) \<noteq> 0"
  shows "fst (run_pipeline s image0) =
           fst (recognize_regions (predict s)
                  (fl (of_int (width (snd (views s image0))) / of_int (width (fst (views s image0)))))
                  (fl (of_int (height (snd (views s image0))) / of_int (height (fst (views s image0)))))
                  (width (snd (views s image0))) (height (snd (views s image0)))
                  (find_boxes s (fst (views s image0))))"
  using assms by (simp add: run_pipeline_def Let_def split: prod.splits sum.splits)

lemma demo_scaled:
  "scaled_coords (fl (2000 / 1000)) 0 first_box = Inr [20, 100, 100, 20]"
  "scaled_coords (fl (2000 / 1000)) 1 first_box = Inr [20, 20, 100, 100]"
  "scaled_region (fl (2000 / 1000)) (fl (2000 / 1000)) 2000 2000 first_box = Inr (15, 15, 105, 105)"
  by code_simp+

lemma demo_points:
  "map (\<lambda>p. py_int (fl (fl (fst p) * fl (2000 / 1000)))) [(10, 10), (50, 10), (50, 50), (10, 50)]
     = [20, 100, 100, 20]"
  "map (\<lambda>p. py_int (fl (fl (snd p) * fl (2000 / 1000)))) [(10, 10), (50, 10), (50, 50), (10, 50)]
     = [20, 20, 100, 100]"
  by code_simp+

lemma scaled_region_pairs:
  assumes "pts \<noteq> []"
  shows "scaled_region scale_x scale_y W H (map (\<lambda>p. [fst p, snd p]) pts) =
           Inr (max 0 (Min (set (map (\<lambda>p. py_int (fl (fl (fst p) * scale_x))) pts)) - 5),
                max 0 (Min (set (map (\<lambda>p. py_int (fl (fl (snd p) * scale_y))) pts)) - 5),
                min W (Max (set (map (\<lambda>p. py_int (fl (fl (fst p) * scale_x))) pts)) + 5),
                min H (Max (set (map (\<lambda>p. py_int (fl (fl (snd p) * scale_y))) pts)) + 5))"
proof -
  let ?xs = "map (\<lambda>p. py_int (fl (fl (fst p) * scale_x))) pts"
  let ?ys = "map (\<lambda>p. py_int (fl (fl (snd p) * scale_y))) pts"
  from assms have x: "?xs \<noteq> []" and y: "?ys \<noteq> []" by simp_all
  show ?thesis
    unfolding scaled_region_def scaled_coords_pairs
    by (simp add: py_min_Min[OF x] py_min_Min[OF y] py_max_Max[OF x] py_max_Max[OF y])
qed

lemma recognize_first:
  assumes "4 \<le> length poly" and "scaled_region sx sy W H poly = Inr (x1, y1, x2, y2)"
    and "x1 < x2" and "y1 < y2"
  shows "\<exists>sz calls. fst (recognize_regions rcg sx sy W H (poly # rest))
                       = Crop (x1, y1, x2, y2) sz # calls"
proof -
  from assms(1) have ne: "poly \<noteq> []" by auto
  show ?thesis
    unfolding recognize_step using assms ne
    by (simp add: extract_patch_value split: sum.splits)
qed

lemma run_pipeline_mapped:
  assumes boxes: "find_boxes s (fst (views s image0)) \<noteq> []"
    and ok: "snd (run_pipeline s image0) = Ok r"
  shows "list_all2 (\<lambda>c b. \<exists>sz. c = Crop b sz)
           (fst (run_pipeline s image0))
           (concat (map (\<lambda>poly.
              if 4 \<le> length poly then
                (case scaled_region
                        (fl (of_int (width (snd (views s image0))) / of_int (width (fst (views s image0)))))
                        (fl (of_int (height (snd (views s image0))) / of_int (height (fst (views s image0)))))
                        (width (snd (views s image0))) (height (snd (views s image0))) poly of
                   Inl e \<Rightarrow> []
                 | Inr (x1, y1, x2, y2) \<Rightarrow> if x1 < x2 \<and> y1 < y2 then [(x1, y1, x2, y2)] else [])
              else []) (find_boxes s (fst (views s image0)))))"
proof -
  let ?d = "fst (views s image0)" and ?p = "snd (views s image0)"
  let ?run = "recognize_regions (predict s)
                (fl (of_int (width ?p) / of_int (width ?d)))
                (fl (of_int (height ?p) / of_int (height ?d)))
                (width ?p) (height ?p) (find_boxes s ?d)"
  from boxes ok have run: "fst (run_pipeline s image0) = fst ?run" and "\<exists>ls. snd ?run = Inr ls"
    by (auto simp: run_pipeline_def Let_def split: option.splits sum.splits prod.splits if_splits)
  then obtain ls where ls: "snd ?run = Inr ls" by blast
  from recognize_calls_mapped[OF ls] show ?thesis unfolding run .
qed

lemma portrait_views:
  "views portrait_server \<lparr>width = 1000, height = 1800\<rparr>
     = (\<lparr>width = 1333, height = 2400\<rparr>, \<lparr>width = 1000, height = 1800\<rparr>)"
  by code_simp


lemma portrait_boxes:
  "find_boxes portrait_server (fst (views portrait_server \<lparr>width = 1000, height = 1800\<rparr>))
     = map (\<lambda>p. [fst p, snd p]) [(100, 2001), (300, 2001), (300, 2101), (100, 2101)] # []"
  by (simp add: find_boxes_def portrait_server_def detected_boxes_def valid_item_def tall_box_def)

lemma portrait_sizes:
  "width (snd (views portrait_server \<lparr>width = 1000, height = 1800\<rparr>)) = 1000"
  "height (snd (views portrait_server \<lparr>width = 1000, height = 1800\<rparr>)) = 1800"
  "width (fst (views portrait_server \<lparr>width = 1000, height = 1800\<rparr>)) = 1333"
  "height (fst (views portrait_server \<lparr>width = 1000, height = 1800\<rparr>)) = 2400"
  by (simp_all add: portrait_views)

lemma portrait_points:
  "map (\<lambda>p. py_int (fl (fl (fst p) * fl (of_int (1000::int) / of_int (1333::int)))))
     [(100, 2001), (300, 2001), (300, 2101), (100, 2101)] = [75, 225, 225, 75]"
  "map (\<lambda>p. py_int (fl (fl (snd p) * fl (of_int (1800::int) / of_int (2400::int)))))
     [(100, 2001), (300, 2001), (300, 2101), (100, 2101)] = [1500, 1500, 1575, 1575]"
  by code_simp+

lemma portrait_corners:
  "max 0 (Min (set [75, 225, 225, 75::int]) - 5) = 70"
  "max 0 (Min (set [1500, 1500, 1575, 1575::int]) - 5) = 1495"
  "min 1000 (Max (set [75, 225, 225, 75::int]) + 5) = 230"
  "min 1800 (Max (set [1500, 1500, 1575, 1575::int]) + 5) = 1580"
  by simp_all

text \<open>
  Claim C6. For a polygon of points with two coordinates each, the Coordinate Mapper
  multiplies every x by \<open>scale_x\<close> and every y by \<open>scale_y\<close> (a product of doubles),
  truncates to an integer, takes the minimum and the maximum over the points, moves
  the corners out by 5 pixels and clamps them to \<open>[0, W]\<close> and \<open>[0, H]\<close>, the size of
  the recognition view; the pipeline calls the loop with \<open>scale_x\<close> the recognition
  width divided by the detection width and \<open>scale_y\<close> the recognition height divided
  by the detection height. The loop applies the mapper with these factors to every
  detected polygon: in a successful response the patches recognised are the crops of
  exactly the mapped regions of the polygons of at least four points, in order, that
  are not empty; and whenever the first detected polygon has at least four points and
  its mapped region, computed with these factors, is not empty, the first patch
  recognised is the crop of that region. For the polygon with corners (10,10) and
  (50,50) in a detection view of 1000 by 1000 mapped into a recognition view of 2000 by
  2000, the scaled points span (20,20)-(100,100) and the region is (15,15)-(105,105).
\<close>

theorem coordinate_mapper:
  "(pts \<noteq> [] \<longrightarrow>
      (let xs = map (\<lambda>p. py_int (fl (fl (fst p) * scale_x))) pts;
           ys = map (\<lambda>p. py_int (fl (fl (snd p) * scale_y))) pts
       in scaled_region scale_x scale_y W H (map (\<lambda>p. [fst p, snd p]) pts) =
            Inr (max 0 (Min (set xs) - 5), max 0 (Min (set ys) - 5),
                 min W (Max (set xs) + 5), min H (Max (set ys) + 5))))
   \<and> (init_models s = None \<longrightarrow> find_boxes s (fst (views s image0)) \<noteq> [] \<longrightarrow>
        width (fst (views s image0)) \<noteq> 0 \<longrightarrow> height (fst (views s image0)) \<noteq> 0 \<longrightarrow>
        fst (run_pipeline s image0) =
           fst (recognize_regions (predict s)
                  (fl (of_int (width (snd (views s image0))) / of_int (width (fst (views s image0)))))
                  (fl (of_int (height (snd (views s image0))) / of_int (height (fst (views s image0)))))
                  (width (snd (views s image0))) (height (snd (views s image0)))
                  (find_boxes s (fst (views s image0)))))
   \<and> (\<forall>r. find_boxes s (fst (views s image0)) \<noteq> [] \<longrightarrow> snd (run_pipeline s image0) = Ok r \<longrightarrow>
        list_all2 (\<lambda>c b. \<exists>sz. c = Crop b sz)
          (fst (run_pipeline s image0))
          (concat (map (\<lambda>poly.
             if 4 \<le> length poly then
               (case scaled_region
                       (fl (of_int (width (snd (views s image0))) / of_int (width (fst (views s image0)))))
                       (fl (of_int (height (snd (views s image0))) / of_int (height (fst (views s image0)))))
                       (width (snd (views s image0))) (height (snd (views s image0))) poly of
                  Inl e \<Rightarrow> []
                | Inr (x1, y1, x2, y2) \<Rightarrow> if x1 < x2 \<and> y1 < y2 then [(x1, y1, x2, y2)] else [])
             else []) (find_boxes s (fst (views s image0))))))
   \<and> (init_models s = None \<longrightarrow>
        find_boxes s (fst (views s image0)) = map (\<lambda>p. [fst p, snd p]) corners # others \<longrightarrow>
        4 \<le> length corners \<longrightarrow>
        width (fst (views s image0)) \<noteq> 0 \<longrightarrow> height (fst (views s image0)) \<noteq> 0 \<longrightarrow>
        (let sx = fl (of_int (width (snd (views s image0))) / of_int (width (fst (views s image0))));
             sy = fl (of_int (height (snd (views s image0))) / of_int (height (fst (views s image0))));
             xs = map (\<lambda>p. py_int (fl (fl (fst p) * sx))) corners;
             ys = map (\<lambda>p. py_int (fl (fl (snd p) * sy))) corners;
             x1 = max 0 (Min (set xs) - 5);
             y1 = max 0 (Min (set ys) - 5);
             x2 = min (width (snd (views s image0))) (Max (set xs) + 5);
             y2 = min (height (snd (views s image0))) (Max (set ys) + 5)
         in x1 < x2 \<longrightarrow> y1 < y2 \<longrightarrow>
            (\<exists>sz calls. fst (run_pipeline s image0) = Crop (x1, y1, x2, y2) sz # calls)))
   \<and> scaled_coords (fl (2000 / 1000)) 0 first_box = Inr [20, 100, 100, 20]
   \<and> scaled_coords (fl (2000 / 1000)) 1 first_box = Inr [20, 20, 100, 100]
   \<and> scaled_region (fl (2000 / 1000)) (fl (2000 / 1000)) 2000 2000 first_box
        = Inr (15, 15, 105, 105)"
proof (intro conjI)
  show "pts \<noteq> [] \<longrightarrow>
      (let xs = map (\<lambda>p. py_int (fl (fl (fst p) * scale_x))) pts;
           ys = map (\<lambda>p. py_int (fl (fl (snd p) * scale_y))) pts
       in scaled_region scale_x scale_y W H (map (\<lambda>p. [fst p, snd p]) pts) =
            Inr (max 0 (Min (set xs) - 5), max 0 (Min (set ys) - 5),
                 min W (Max (set xs) + 5), min H (Max (set ys) + 5)))"
    unfolding Let_def by (rule impI) (rule scaled_region_pairs)
next
  show "init_models s = None \<longrightarrow> find_boxes s (fst (views s image0)) \<noteq> [] \<longrightarrow>
        width (fst (views s image0)) \<noteq> 0 \<longrightarrow> height (fst (views s image0)) \<noteq> 0 \<longrightarrow>
        fst (run_pipeline s image0) =
           fst (recognize_regions (predict s)
                  (fl (of_int (width (snd (views s image0))) / of_int (width (fst (views s image0)))))
                  (fl (of_int (height (snd (views s image0))) / of_int (height (fst (views s image0)))))
                  (width (snd (views s image0))) (height (snd (views s image0)))
                  (find_boxes s (fst (views s image0))))"
    by (intro impI) (rule run_pipeline_regions)
next
  show "\<forall>r. find_boxes s (fst (views s image0)) \<noteq> [] \<longrightarrow> snd (run_pipeline s image0) = Ok r \<longrightarrow>
        list_all2 (\<lambda>c b. \<exists>sz. c = Crop b sz)
          (fst (run_pipeline s image0))
          (concat (map (\<lambda>poly.
             if 4 \<le> length poly then
               (case scaled_region
                       (fl (of_int (width (snd (views s image0))) / of_int (width (fst (views s image0)))))
                       (fl (of_int (height (snd (views s image0))) / of_int (height (fst (views s image0)))))
                       (width (snd (views s image0))) (height (snd (views s image0))) poly of
                  Inl e \<Rightarrow> []
                | Inr (x1, y1, x2, y2) \<Rightarrow> if x1 < x2 \<and> y1 < y2 then [(x1, y1, x2, y2)] else [])
             else []) (find_boxes s (fst (views s image0)))))"
    by (intro allI impI) (rule run_pipeline_mapped)
next
  let ?d = "fst (views s image0)" and ?p = "snd (views s image0)"
  let ?sx = "fl (of_int (width ?p) / of_int (width ?d))"
  let ?sy = "fl (of_int (height ?p) / of_int (height ?d))"
  let ?xs = "map (\<lambda>p. py_int (fl (fl (fst p) * ?sx))) corners"
  let ?ys = "map (\<lambda>p. py_int (fl (fl (snd p) * ?sy))) corners"
  let ?x1 = "max 0 (Min (set ?xs) - 5)" and ?y1 = "max 0 (Min (set ?ys) - 5)"
  let ?x2 = "min (width ?p) (Max (set ?xs) + 5)" and ?y2 = "min (height ?p) (Max (set ?ys) + 5)"
  have "\<exists>sz calls. fst (run_pipeline s image0) = Crop (?x1, ?y1, ?x2, ?y2) sz # calls"
    if i: "init_models s = None"
      and b: "find_boxes s ?d = map (\<lambda>p. [fst p, snd p]) corners # others"
      and len: "4 \<le> length corners"
      and w: "width ?d \<noteq> 0" and h: "height ?d \<noteq> 0"
      and x: "?x1 < ?x2" and y: "?y1 < ?y2"
  proof -
    from len have ne: "corners \<noteq> []" by auto
    from b have bne: "find_boxes s ?d \<noteq> []" by simp
    have len': "4 \<le> length (map (\<lambda>p. [fst p, snd p]) corners)" using len by simp
    note reg = scaled_region_pairs[OF ne, of ?sx ?sy "width ?p" "height ?p"]
    from recognize_first[OF len' reg x y, of "predict s" others]
    show ?thesis
      unfolding run_pipeline_regions[OF i bne w h] b .
  qed
  then show "init_models s = None \<longrightarrow>
        find_boxes s (fst (views s image0)) = map (\<lambda>p. [fst p, snd p]) corners # others \<longrightarrow>
        4 \<le> length corners \<longrightarrow>
        width (fst (views s image0)) \<noteq> 0 \<longrightarrow> height (fst (views s image0)) \<noteq> 0 \<longrightarrow>
        (let sx = fl (of_int (width (snd (views s image0))) / of_int (width (fst (views s image0))));
             sy = fl (of_int (height (snd (views s image0))) / of_int (height (fst (views s image0))));
             xs = map (\<lambda>p. py_int (fl (fl (fst p) * sx))) corners;
             ys = map (\<lambda>p. py_int (fl (fl (snd p) * sy))) corners;
             x1 = max 0 (Min (set xs) - 5);
             y1 = max 0 (Min (set ys) - 5);
             x2 = min (width (snd (views s image0))) (Max (set xs) + 5);
             y2 = min (height (snd (views s image0))) (Max (set ys) + 5)
         in x1 < x2 \<longrightarrow> y1 < y2 \<longrightarrow>
            (\<exists>sz calls. fst (run_pipeline s image0) = Crop (x1, y1, x2, y2) sz # calls))"
    unfolding Let_def by blast
qed (rule demo_scaled)+


theorem coordinate_mapper_witness:
  "scaled_region (fl (2000 / 1000)) (fl (2000 / 1000)) 2000 2000
     [[10, 10], [50, 10], [50, 50], [10, 50]] = Inr (15, 15, 105, 105)
   \<and> (\<exists>sz calls. fst (run_pipeline portrait_server \<lparr>width = 1000, height = 1800\<rparr>)
                    = Crop (70, 1495, 230, 1580) sz # calls)"
proof -
  note T = coordinate_mapper[of "[(10, 10), (50, 10), (50, 50), (10, 50)]"
             "fl (2000 / 1000)" "fl (2000 / 1000)" 2000 2000
             portrait_server "\<lparr>width = 1000, height = 1800\<rparr>"
             "[(100, 2001), (300, 2001), (300, 2101), (100, 2101)]" "[]"]
  from T
  have "scaled_region (fl (2000 / 1000)) (fl (2000 / 1000)) 2000 2000
          (map (\<lambda>p. [fst p, snd p]) [(10, 10), (50, 10), (50, 50), (10, 50)])
        = Inr (max 0 (Min (set [20, 100, 100, 20]) - 5), max 0 (Min (set [20, 20, 100, 100]) - 5),
               min 2000 (Max (set [20, 100, 100, 20]) + 5),
               min 2000 (Max (set [20, 20, 100, 100]) + 5))"
    unfolding Let_def demo_points by blast
  then have a: "scaled_region (fl (2000 / 1000)) (fl (2000 / 1000)) 2000 2000
     [[10, 10], [50, 10], [50, 50], [10, 50]] = Inr (15, 15, 105, 105)"
    by simp
  have i: "init_models portrait_server = None" by (simp add: portrait_server_def)
  have len: "4 \<le> length [(100, 2001), (300, 2001), (300, 2101), (100::rat, 2101::rat)]" by simp
  from T
  have "init_models portrait_server = None \<longrightarrow>
        find_boxes portrait_server (fst (views portrait_server \<lparr>width = 1000, height = 1800\<rparr>))
          = map (\<lambda>p. [fst p, snd p]) [(100, 2001), (300, 2001), (300, 2101), (100, 2101)] # [] \<longrightarrow>
        4 \<le> length [(100, 2001), (300, 2001), (300, 2101), (100::rat, 2101::rat)] \<longrightarrow>
        (1333::int) \<noteq> 0 \<longrightarrow> (2400::int) \<noteq> 0 \<longrightarrow> (70::int) < 230 \<longrightarrow> (1495::int) < 1580 \<longrightarrow>
        (\<exists>sz calls. fst (run_pipeline portrait_server \<lparr>width = 1000, height = 1800\<rparr>)
                    = Crop (70, 1495, 230, 1580) sz # calls)"
    unfolding Let_def portrait_sizes portrait_points portrait_corners by blast
  with i portrait_boxes len
  have b: "\<exists>sz calls. fst (run_pipeline portrait_server \<lparr>width = 1000, height = 1800\<rparr>)
                    = Crop (70, 1495, 230, 1580) sz # calls"
    by simp
  from a b show ?thesis by (rule conjI)
qed


lemma extract_small:
  assumes w: "0 < x2 - x1" and h: "0 < y2 - y1" and small: "y2 - y1 < 48"
  shows "extract_patch (x1, y1, x2, y2) =
           Inr (Crop (x1, y1, x2, y2)
                  (py_int (fl (of_int (x2 - x1) * fl (of_int 48 / of_int (y2 - y1)))), 48))"
  using assms by (simp add: extract_patch_def Let_def)

text \<open>
  Claim C8 gives the width of an upscaled crop as \<open>round(width \<times> 48 / height)\<close>. For a
  crop 101 pixels wide and 30 pixels high the extractor yields a width of 161, whereas
  \<open>101 \<times> 48 / 30 = 161.6\<close> rounds to 162.
\<close>

theorem small_crop_width_rounded_counterexample:
  "extract_patch (0, 0, 101, 30) = Inr (Crop (0, 0, 101, 30) (161, 48))
   \<and> round (101 * 48 / 30 :: rat) = (162 :: int)"
  by code_simp

text \<open>
  Claim C8, as the code has it. A crop lower than 48 pixels is upscaled to a height of
  exactly 48 pixels and to the width \<^verbatim>\<open>int(crop.width * (48.0 / crop.height))\<close>, which
  truncates: it is \<open>width \<times> 48 / height\<close> rounded down whenever that quotient is not a
  whole number, and the quotient or one less when it is (the double-precision product
  may fall just below it). A crop at least 48 pixels high is passed on with its own
  size, so no crop is ever downscaled. Crop widths are below \<open>2\<^sup>3\<^sup>1\<close>, as PIL sizes
  are.
\<close>

theorem small_crop_upscaled_by_truncation:
  assumes w: "x1 < x2" and h: "y1 < y2" and bound: "x2 - x1 < 2 ^ 31"
  shows "(y2 - y1 < 48 \<longrightarrow>
            (\<exists>new_width.
               extract_patch (x1, y1, x2, y2) = Inr (Crop (x1, y1, x2, y2) (new_width, 48))
             \<and> ((x2 - x1) * 48) div (y2 - y1) - 1 \<le> new_width
             \<and> new_width \<le> ((x2 - x1) * 48) div (y2 - y1)
             \<and> (\<not> (y2 - y1) dvd (x2 - x1) * 48 \<longrightarrow>
                  new_width = ((x2 - x1) * 48) div (y2 - y1))))
       \<and> (48 \<le> y2 - y1 \<longrightarrow>
            extract_patch (x1, y1, x2, y2) = Inr (Crop (x1, y1, x2, y2) (x2 - x1, y2 - y1)))"
proof (intro conjI impI)
  assume small: "y2 - y1 < 48"
  let ?w = "x2 - x1" and ?h = "y2 - y1"
  let ?nw = "py_int (fl (of_int ?w * fl (of_int 48 / of_int ?h)))"
  have w0: "0 < ?w" and h0: "0 < ?h" using w h by simp_all
  have prod: "?w * 48 < 2 ^ 50" using bound by simp
  note T = float_scale_trunc[OF w0 _ h0 prod]
  have ex: "extract_patch (x1, y1, x2, y2) = Inr (Crop (x1, y1, x2, y2) (?nw, 48))"
    by (rule extract_small[OF w0 h0 small])
  have n0: "(0::int) < 48" by simp
  from T(1)[OF n0] have lo: "(?w * 48) div ?h - 1 \<le> ?nw" .
  from T(2)[OF n0] have hi: "?nw \<le> (?w * 48) div ?h" .
  from T(3)[OF n0] have eq: "\<not> ?h dvd ?w * 48 \<longrightarrow> ?nw = (?w * 48) div ?h" by blast
  from ex lo hi eq
  show "\<exists>new_width.
               extract_patch (x1, y1, x2, y2) = Inr (Crop (x1, y1, x2, y2) (new_width, 48))
             \<and> ((x2 - x1) * 48) div (y2 - y1) - 1 \<le> new_width
             \<and> new_width \<le> ((x2 - x1) * 48) div (y2 - y1)
             \<and> (\<not> (y2 - y1) dvd (x2 - x1) * 48 \<longrightarrow>
                  new_width = ((x2 - x1) * 48) div (y2 - y1))"
    by blast
next
  assume "48 \<le> y2 - y1"
  then show "extract_patch (x1, y1, x2, y2) = Inr (Crop (x1, y1, x2, y2) (x2 - x1, y2 - y1))"
    using w by (simp add: extract_patch_def Let_def)
qed

theorem small_crop_upscaled_by_truncation_witness:
  "extract_patch (0, 0, 101, 30) = Inr (Crop (0, 0, 101, 30) (161, 48))
   \<and> extract_patch (5, 5, 55, 55) = Inr (Crop (5, 5, 55, 55) (50, 50))"
proof -
  have a: "(0::int) < 101" "(0::int) < 30" "(101::int) - 0 < 2 ^ 31" by simp_all
  from small_crop_upscaled_by_truncation[OF a]
  obtain nw where "extract_patch (0, 0, 101, 30) = Inr (Crop (0, 0, 101, 30) (nw, 48))"
    and "\<not> (30::int) dvd 101 * 48 \<longrightarrow> nw = (101 * 48) div 30"
    by auto
  moreover have "\<not> (30::int) dvd 101 * 48" by presburger
  moreover have "(101 * 48) div 30 = (161::int)" by simp
  ultimately have A: "extract_patch (0, 0, 101, 30) = Inr (Crop (0, 0, 101, 30) (161, 48))"
    by simp
  have b: "(5::int) < 55" "(5::int) < 55" "(55::int) - 5 < 2 ^ 31" by simp_all
  from small_crop_upscaled_by_truncation[OF b]
  have B: "extract_patch (5, 5, 55, 55) = Inr (Crop (5, 5, 55, 55) (50, 50))" by simp
  from A B show ?thesis by simp
qed


section \<open>Properties of the Image Normalizer\<close>







lemma fst_contrast_step: "fst (contrast_step enh inp b) = inp"
  by (simp add: contrast_step_def Let_def)


lemma detection_input_after:
  assumes "1 \<le> width img" and "1 \<le> height img"
  shows "fst (preprocess_image thumb enh img True) =
           (if max (width img) (height img) > 5000 then thumb (3200, 3200) img else img)"
proof -
  have m: "max (width img) (height img) \<noteq> 0" using assms by simp
  show ?thesis
    using m by (simp add: preprocess_image_def Let_def fst_contrast_step)
qed





text \<open>
  Claim C3 says that \<^verbatim>\<open>preprocess_image\<close> never changes the image it is given. The
  downscaling branches call \<^verbatim>\<open>img.thumbnail\<close>, which resizes the object in place,
  whereas the upscaling branches rebind \<^verbatim>\<open>img\<close> to the copy that \<^verbatim>\<open>img.resize\<close>
  returns. After the detection-mode call on a page of 6000 by 3000 the page itself is
  3200 by 1600, so the recognition-mode call that follows in \<^verbatim>\<open>ocr\<close> no longer sees
  a side above 4000 and the recognition view is 3200 by 1600 instead of 2400 by 1200.
\<close>

theorem thumbnail_resizes_input_in_place:
  "fst (preprocess_image pil_thumbnail (\<lambda>i. True) \<lparr>width = 6000, height = 3000\<rparr> True)
     = \<lparr>width = 3200, height = 1600\<rparr>
   \<and> views demo_server \<lparr>width = 6000, height = 3000\<rparr>
     = (\<lparr>width = 3200, height = 1600\<rparr>, \<lparr>width = 3200, height = 1600\<rparr>)"
  by code_simp

end
